theory Spec2Isabelle
  imports Complex_Main "HOL-Library.AList"
begin

section \<open>Python values\<close>

text \<open>
  The invoice generator of \<^verbatim>\<open>src/generator/invoices.py\<close> works on dictionaries whose
  values are numbers, strings, lists and nested dictionaries, and does all of its money
  arithmetic with \<^verbatim>\<open>decimal.Decimal\<close> under the default context. A \<^verbatim>\<open>Decimal\<close> is a sign,
  a coefficient and an exponent, or one of the special values. Sign and diagnostic digits
  of a NaN are not kept: no operation of this program reads them.
\<close>

datatype decimal = Fin bool nat int | Infinity bool | NaN | SNaN

text \<open>
  A float is kept as its sign and what \<^verbatim>\<open>abs(f).as_integer_ratio()\<close> returns, the
  numerator \<open>n\<close> and the exponent \<open>k\<close> of the denominator \<open>2 ^ k\<close>.
\<close>

datatype pyfloat = FFin bool nat nat | FInf bool | FNaN

datatype pyval =
    PNone
  | PBool bool
  | PInt int
  | PFloat pyfloat
  | PStr string
  | PDecimal decimal
  | PList "pyval list"
  | PTuple "pyval list"
  | PDict "(string \<times> pyval) list"

type_synonym pydict = "(string \<times> pyval) list"

text \<open>
  The exceptions the program can raise: \<^verbatim>\<open>ValueError\<close> with its message, the two trapped
  signals of the decimal context, and what a wrong argument type raises.
\<close>

datatype error =
    ValueError string
  | TypeError
  | AttributeError
  | KeyError string
  | InvalidOperation
  | Overflow

text \<open>
  A dictionary keeps its keys in insertion order, so it is an association list:
  \<^verbatim>\<open>k in d\<close>, \<^verbatim>\<open>d.get(k, default)\<close>, \<^verbatim>\<open>d[k]\<close>, \<^verbatim>\<open>d[k] = v\<close> and
  \<^verbatim>\<open>d.setdefault(k, v)\<close>. Values nested in a dictionary are held by value: two fields
  that share one object are not modelled.
\<close>

definition dict_has :: "pydict \<Rightarrow> string \<Rightarrow> bool" where
  "dict_has d k = (map_of d k \<noteq> None)"

definition dict_get :: "pydict \<Rightarrow> string \<Rightarrow> pyval \<Rightarrow> pyval" where
  "dict_get d k dflt = (case map_of d k of None \<Rightarrow> dflt | Some v \<Rightarrow> v)"

definition dict_index :: "pydict \<Rightarrow> string \<Rightarrow> error + pyval" where
  "dict_index d k = (case map_of d k of None \<Rightarrow> Inl (KeyError k) | Some v \<Rightarrow> Inr v)"

definition dict_set :: "pydict \<Rightarrow> string \<Rightarrow> pyval \<Rightarrow> pydict" where
  "dict_set d k v = AList.update k v d"

definition setdefault :: "pydict \<Rightarrow> string \<Rightarrow> pyval \<Rightarrow> pydict" where
  "setdefault d k v = (if dict_has d k then d else dict_set d k v)"

text \<open>
  What the program takes from its host and this development takes as given: the text of a
  float (\<^verbatim>\<open>str(f)\<close>), \<^verbatim>\<open>locale.currency(float(amt), grouping=True)\<close> (\<open>None\<close> when it
  raises), \<^verbatim>\<open>format(amt, ',')\<close>, and the layout calls of \<^verbatim>\<open>generate_invoice\<close> that build the
  letterhead, metadata and bill-to blocks from the record before the items table (the
  exception they raise, if any).
\<close>

record host =
  float_repr :: "pyfloat \<Rightarrow> string"
  locale_currency :: "decimal \<Rightarrow> string option"
  format_grouped :: "decimal \<Rightarrow> string"
  header_blocks :: "pydict \<Rightarrow> error option"

text \<open>Running one step after another, stopping at the first exception.\<close>

definition on_ok :: "error + 'a \<Rightarrow> ('a \<Rightarrow> error + 'b) \<Rightarrow> error + 'b" where
  "on_ok m f = (case m of Inl e \<Rightarrow> Inl e | Inr x \<Rightarrow> f x)"

section \<open>Decimal arithmetic under the default context\<close>

text \<open>
  The default context: \<^verbatim>\<open>prec=28, rounding=ROUND_HALF_EVEN, Emin=-999999, Emax=999999\<close>,
  with \<^verbatim>\<open>InvalidOperation\<close> and \<^verbatim>\<open>Overflow\<close> trapped (they raise) and
  \<^verbatim>\<open>Underflow\<close>, \<^verbatim>\<open>Inexact\<close>, \<^verbatim>\<open>Rounded\<close> not trapped (they pass silently).
\<close>

definition prec :: nat where "prec = 28"
definition Emax :: int where "Emax = 999999"
definition Emin :: int where "Emin = - 999999"
definition Etiny :: int where "Etiny = Emin - int prec + 1"
definition Etop :: int where "Etop = Emax - int prec + 1"

text \<open>\<^verbatim>\<open>len(str(n))\<close>: the number of decimal digits of a coefficient.\<close>

fun ndigits :: "nat \<Rightarrow> nat" where
  "ndigits n = (if n < 10 then 1 else Suc (ndigits (n div 10)))"

declare ndigits.simps [simp del]

datatype rounding = ROUND_HALF_EVEN | ROUND_HALF_UP

text \<open>
  Dropping the last \<open>d\<close> digits of a coefficient and rounding what is left, by magnitude:
  half-up rounds a tie away from zero, half-even to the even neighbour.
\<close>

definition round_digits :: "rounding \<Rightarrow> nat \<Rightarrow> nat \<Rightarrow> nat" where
  "round_digits r c d =
     (let q = c div 10 ^ d; t = 2 * (c mod 10 ^ d) in
      case r of
        ROUND_HALF_UP \<Rightarrow> if 10 ^ d \<le> t then q + 1 else q
      | ROUND_HALF_EVEN \<Rightarrow> if 10 ^ d < t \<or> (t = 10 ^ d \<and> odd q) then q + 1 else q)"

text \<open>
  \<^verbatim>\<open>Decimal._fix\<close>: round a result to the context. A zero keeps its exponent within
  the limits; a coefficient of more than \<open>prec\<close> digits, or one below \<open>Etiny\<close>, is rounded
  half-even; a result beyond \<open>Emax\<close> raises \<^verbatim>\<open>Overflow\<close>.
\<close>

fun dec_fix :: "decimal \<Rightarrow> error + decimal" where
  "dec_fix (Fin s c e) =
     (if c = 0 then Inr (Fin s 0 (min (max e Etiny) Emax))
      else
        let exp_min0 = int (ndigits c) + e - int prec in
        if Etop < exp_min0 then Inl Overflow
        else
          let exp_min = max exp_min0 Etiny in
          if e < exp_min then
            let c1 = round_digits ROUND_HALF_EVEN c (nat (exp_min - e));
                carry = (prec < ndigits c1);
                coeff = (if carry then c1 div 10 else c1);
                exp_min' = (if carry then exp_min + 1 else exp_min)
            in if Etop < exp_min' then Inl Overflow else Inr (Fin s coeff exp_min')
          else Inr (Fin s c e))"
| "dec_fix d = Inr d"

text \<open>\<^verbatim>\<open>Decimal._rescale\<close>: the coefficient of a finite number brought to the exponent \<open>q\<close>.\<close>

definition rescale :: "rounding \<Rightarrow> nat \<Rightarrow> int \<Rightarrow> int \<Rightarrow> nat" where
  "rescale r c e q =
     (if c = 0 then 0
      else if q \<le> e then c * 10 ^ nat (e - q)
      else round_digits r c (nat (q - e)))"

text \<open>
  \<^verbatim>\<open>Decimal.__mul__\<close>: a signalling NaN raises, a quiet NaN is passed on, infinity times
  zero raises, and a finite product is the exact product, fixed to the context.
\<close>

fun dec_mul :: "decimal \<Rightarrow> decimal \<Rightarrow> error + decimal" where
  "dec_mul SNaN b = Inl InvalidOperation"
| "dec_mul a SNaN = Inl InvalidOperation"
| "dec_mul NaN b = Inr NaN"
| "dec_mul a NaN = Inr NaN"
| "dec_mul (Infinity s) (Infinity t) = Inr (Infinity (s \<noteq> t))"
| "dec_mul (Infinity s) (Fin t c e) =
     (if c = 0 then Inl InvalidOperation else Inr (Infinity (s \<noteq> t)))"
| "dec_mul (Fin s c e) (Infinity t) =
     (if c = 0 then Inl InvalidOperation else Inr (Infinity (s \<noteq> t)))"
| "dec_mul (Fin s c e) (Fin t c' e') = dec_fix (Fin (s \<noteq> t) (c * c') (e + e'))"

text \<open>
  \<^verbatim>\<open>Decimal.__add__\<close>: the exact sum at the smaller exponent, fixed to the context. A sum
  of two zeros is negative only when both are; any other zero sum is positive.
\<close>

definition signed :: "bool \<Rightarrow> nat \<Rightarrow> int" where
  "signed s c = (if s then - int c else int c)"

fun dec_add :: "decimal \<Rightarrow> decimal \<Rightarrow> error + decimal" where
  "dec_add SNaN b = Inl InvalidOperation"
| "dec_add a SNaN = Inl InvalidOperation"
| "dec_add NaN b = Inr NaN"
| "dec_add a NaN = Inr NaN"
| "dec_add (Infinity s) (Infinity t) =
     (if s \<noteq> t then Inl InvalidOperation else Inr (Infinity s))"
| "dec_add (Infinity s) (Fin t c e) = Inr (Infinity s)"
| "dec_add (Fin s c e) (Infinity t) = Inr (Infinity t)"
| "dec_add (Fin s c e) (Fin t c' e') =
     (let ex = min e e';
          r = signed s (c * 10 ^ nat (e - ex)) + signed t (c' * 10 ^ nat (e' - ex))
      in if c = 0 \<and> c' = 0 then dec_fix (Fin (s \<and> t) 0 ex)
         else dec_fix (Fin (r < 0) (nat \<bar>r\<bar>) ex))"

text \<open>
  \<^verbatim>\<open>Decimal.quantize(exp, rounding)\<close>: the number at the exponent of \<open>exp\<close>. It raises
  \<^verbatim>\<open>InvalidOperation\<close> on an infinity and when the result would need more than \<open>prec\<close>
  digits.
\<close>

fun quantize :: "decimal \<Rightarrow> decimal \<Rightarrow> rounding \<Rightarrow> error + decimal" where
  "quantize SNaN b r = Inl InvalidOperation"
| "quantize a SNaN r = Inl InvalidOperation"
| "quantize NaN b r = Inr NaN"
| "quantize a NaN r = Inr NaN"
| "quantize (Infinity s) (Infinity t) r = Inr (Infinity s)"
| "quantize (Infinity s) (Fin t c e) r = Inl InvalidOperation"
| "quantize (Fin s c e) (Infinity t) r = Inl InvalidOperation"
| "quantize (Fin s c e) (Fin t c' q) r =
     (if \<not> (Etiny \<le> q \<and> q \<le> Emax) then Inl InvalidOperation
      else if c = 0 then dec_fix (Fin s 0 q)
      else
        let adjusted = int (ndigits c) + e - 1 in
        if Emax < adjusted then Inl InvalidOperation
        else if int prec < adjusted - q + 1 then Inl InvalidOperation
        else
          let ans = rescale r c e q in
          if Emax < int (ndigits ans) + q - 1 then Inl InvalidOperation
          else if prec < ndigits ans then Inl InvalidOperation
          else dec_fix (Fin s ans q))"

section \<open>Reading and writing numbers\<close>

text \<open>
  \<^verbatim>\<open>Decimal(s)\<close> for a string: surrounding whitespace and all underscores are dropped, then
  the text must be a sign and a decimal numeral with an optional exponent, or an infinity,
  or a NaN, in any letter case. Characters are bytes here, so only ASCII digits and
  whitespace are recognised. The constructor is exact, and raises \<^verbatim>\<open>InvalidOperation\<close>
  on text that is no number and on a number outside the library's internal limits.
\<close>

definition is_space :: "char \<Rightarrow> bool" where
  "is_space c = (let n = (of_char c :: nat) in (9 \<le> n \<and> n \<le> 13) \<or> (28 \<le> n \<and> n \<le> 32))"

definition strip :: "string \<Rightarrow> string" where
  "strip s = rev (dropWhile is_space (rev (dropWhile is_space s)))"

definition is_digit :: "char \<Rightarrow> bool" where
  "is_digit c = (let n = (of_char c :: nat) in 48 \<le> n \<and> n \<le> 57)"

definition digits_val :: "string \<Rightarrow> nat" where
  "digits_val ds = foldl (\<lambda>a c. 10 * a + (of_char c - 48)) 0 ds"

definition lower :: "char \<Rightarrow> char" where
  "lower c =
     (case map_of (zip ''ABCDEFGHIJKLMNOPQRSTUVWXYZ'' ''abcdefghijklmnopqrstuvwxyz'') c of
        None \<Rightarrow> c
      | Some l \<Rightarrow> l)"

definition MAX_EMAX :: int where "MAX_EMAX = 999999999999999999"
definition MIN_ETINY :: int where "MIN_ETINY = - 1999999999999999997"

definition exact :: "bool \<Rightarrow> nat \<Rightarrow> int \<Rightarrow> error + decimal" where
  "exact s c e =
     (if e < MIN_ETINY \<or> MAX_EMAX < int (ndigits c) + e - 1 then Inl InvalidOperation
      else Inr (Fin s c e))"

definition split_sign :: "string \<Rightarrow> bool \<times> string" where
  "split_sign s =
     (case s of
        [] \<Rightarrow> (False, [])
      | c # r \<Rightarrow> if c = CHR ''-'' then (True, r) else if c = CHR ''+'' then (False, r) else (False, s))"

definition parse_number :: "bool \<Rightarrow> string \<Rightarrow> error + decimal" where
  "parse_number sign l =
     (let ip = takeWhile is_digit l;
          r1 = dropWhile is_digit l;
          dot = (r1 \<noteq> [] \<and> hd r1 = CHR ''.'');
          fp = (if dot then takeWhile is_digit (tl r1) else []);
          r2 = (if dot then dropWhile is_digit (tl r1) else r1);
          coeff = digits_val (ip @ fp)
      in if ip = [] \<and> fp = [] then Inl InvalidOperation
         else
           (case r2 of
              [] \<Rightarrow> exact sign coeff (- int (length fp))
            | c # r3 \<Rightarrow>
                if c \<noteq> CHR ''e'' then Inl InvalidOperation
                else
                  let (es, ds) = split_sign r3 in
                  if ds = [] \<or> \<not> list_all is_digit ds then Inl InvalidOperation
                  else exact sign coeff (signed es (digits_val ds) - int (length fp))))"

definition Decimal_of_str :: "string \<Rightarrow> error + decimal" where
  "Decimal_of_str v =
     (let (sign, r) = split_sign (filter (\<lambda>c. c \<noteq> CHR ''_'') (strip v));
          l = map lower r
      in if l = ''inf'' \<or> l = ''infinity'' then Inr (Infinity sign)
         else if take 3 l = ''nan'' \<and> list_all is_digit (drop 3 l) then Inr NaN
         else if take 4 l = ''snan'' \<and> list_all is_digit (drop 4 l) then Inr SNaN
         else parse_number sign l)"

text \<open>\<^verbatim>\<open>str(n)\<close> for an int and \<^verbatim>\<open>str(d)\<close> for a \<^verbatim>\<open>Decimal\<close> (its scientific string).\<close>

fun str_nat :: "nat \<Rightarrow> string" where
  "str_nat n =
     (if n < 10 then [''0123456789'' ! n]
      else str_nat (n div 10) @ [''0123456789'' ! (n mod 10)])"

declare str_nat.simps [simp del]

definition str_int :: "int \<Rightarrow> string" where
  "str_int i = (if i < 0 then CHR ''-'' # str_nat (nat (- i)) else str_nat (nat i))"

definition str_decimal :: "decimal \<Rightarrow> string" where
  "str_decimal d =
     (case d of
        Infinity s \<Rightarrow> (if s then ''-'' else []) @ ''Infinity''
      | NaN \<Rightarrow> ''NaN''
      | SNaN \<Rightarrow> ''sNaN''
      | Fin s c e \<Rightarrow>
          let ds = str_nat c;
              n = int (length ds);
              leftdigits = e + n;
              dotplace = (if e \<le> 0 \<and> - 6 < leftdigits then leftdigits else 1);
              intpart =
                (if dotplace \<le> 0 then ''0''
                 else if n \<le> dotplace then ds @ replicate (nat (dotplace - n)) (CHR ''0'')
                 else take (nat dotplace) ds);
              fracpart =
                (if dotplace \<le> 0 then ''.'' @ replicate (nat (- dotplace)) (CHR ''0'') @ ds
                 else if n \<le> dotplace then []
                 else ''.'' @ drop (nat dotplace) ds);
              ex =
                (if leftdigits = dotplace then []
                 else ''E'' @ (if dotplace \<le> leftdigits then ''+'' else ''-'')
                        @ str_nat (nat \<bar>leftdigits - dotplace\<bar>))
          in (if s then ''-'' else []) @ intpart @ fracpart @ ex)"

text \<open>
  \<^verbatim>\<open>Decimal(str(v))\<close>, the coercion of \<^verbatim>\<open>compute_totals\<close>. The text of a list, tuple or
  dictionary opens with a bracket, so it is never a number. An int is written without a
  digit limit.
\<close>

fun to_decimal :: "host \<Rightarrow> pyval \<Rightarrow> error + decimal" where
  "to_decimal h PNone = Decimal_of_str ''None''"
| "to_decimal h (PBool b) = Decimal_of_str (if b then ''True'' else ''False'')"
| "to_decimal h (PInt i) = Decimal_of_str (str_int i)"
| "to_decimal h (PFloat f) = Decimal_of_str (float_repr h f)"
| "to_decimal h (PStr s) = Decimal_of_str s"
| "to_decimal h (PDecimal d) = Decimal_of_str (str_decimal d)"
| "to_decimal h (PList xs) = Inl InvalidOperation"
| "to_decimal h (PTuple xs) = Inl InvalidOperation"
| "to_decimal h (PDict d) = Inl InvalidOperation"

text \<open>
  \<^verbatim>\<open>Decimal(v)\<close>, the coercion of \<^verbatim>\<open>moneyfmt\<close>: an int or bool exactly, a float by its exact
  binary value, a string as above, and a list or tuple \<^verbatim>\<open>(sign, digits, exponent)\<close>.
\<close>

definition as_int :: "pyval \<Rightarrow> int option" where
  "as_int v = (case v of PInt i \<Rightarrow> Some i | PBool b \<Rightarrow> Some (if b then 1 else 0) | _ \<Rightarrow> None)"

definition is_digit_val :: "pyval \<Rightarrow> bool" where
  "is_digit_val x = (case as_int x of None \<Rightarrow> False | Some i \<Rightarrow> 0 \<le> i \<and> i \<le> 9)"

definition as_digits :: "pyval \<Rightarrow> nat list option" where
  "as_digits v =
     (case (case v of PTuple xs \<Rightarrow> Some xs | PList xs \<Rightarrow> Some xs | _ \<Rightarrow> None) of
        None \<Rightarrow> None
      | Some xs \<Rightarrow>
          if list_all is_digit_val xs
          then Some (map (\<lambda>x. case as_int x of None \<Rightarrow> 0 | Some i \<Rightarrow> nat i) xs)
          else None)"

definition Decimal_of_tuple :: "pyval list \<Rightarrow> error + decimal" where
  "Decimal_of_tuple vs =
     (case vs of
        [sg, ds, ex] \<Rightarrow>
          if as_int sg \<noteq> Some 0 \<and> as_int sg \<noteq> Some 1
          then Inl (ValueError ''sign must be an integer with the value 0 or 1'')
          else if (case ex of PStr t \<Rightarrow> t \<noteq> ''F'' \<and> t \<noteq> ''n'' \<and> t \<noteq> ''N'' | _ \<Rightarrow> False)
          then Inl (ValueError (''string argument in the third position must be ''
                 @ [CHR 0x27] @ ''F'' @ [CHR 0x27] @ '', '' @ [CHR 0x27] @ ''n'' @ [CHR 0x27]
                 @ '' or '' @ [CHR 0x27] @ ''N'' @ [CHR 0x27]))
          else if (case ex of PStr t \<Rightarrow> False | _ \<Rightarrow> as_int ex = None)
          then Inl (ValueError ''exponent must be an integer'')
          else
            (case as_digits ds of
               None \<Rightarrow> Inl (ValueError ''coefficient must be a tuple of digits'')
             | Some xs \<Rightarrow>
                 if ex = PStr ''F'' then Inr (Infinity (as_int sg = Some 1))
                 else if ex = PStr ''n'' then Inr NaN
                 else if ex = PStr ''N'' then Inr SNaN
                 else
                   (case as_int ex of
                      None \<Rightarrow> Inl (ValueError ''exponent must be an integer'')
                    | Some k \<Rightarrow>
                        exact (as_int sg = Some 1) (foldl (\<lambda>a x. 10 * a + x) 0 xs) k))
      | _ \<Rightarrow> Inl (ValueError ''argument must be a sequence of length 3''))"

fun Decimal_of :: "pyval \<Rightarrow> error + decimal" where
  "Decimal_of PNone = Inl TypeError"
| "Decimal_of (PBool b) = Inr (Fin False (if b then 1 else 0) 0)"
| "Decimal_of (PInt i) = Inr (Fin (i < 0) (nat \<bar>i\<bar>) 0)"
| "Decimal_of (PFloat (FFin s n k)) = Inr (Fin s (n * 5 ^ k) (- int k))"
| "Decimal_of (PFloat (FInf s)) = Inr (Infinity s)"
| "Decimal_of (PFloat FNaN) = Inr NaN"
| "Decimal_of (PStr s) = Decimal_of_str s"
| "Decimal_of (PDecimal d) = Inr d"
| "Decimal_of (PList xs) = Decimal_of_tuple xs"
| "Decimal_of (PTuple xs) = Decimal_of_tuple xs"
| "Decimal_of (PDict d) = Inl TypeError"

section \<open>The program\<close>

text \<open>The two literals \<^verbatim>\<open>Decimal('0.01')\<close> and \<^verbatim>\<open>Decimal('0.00')\<close>.\<close>

definition cent :: decimal where "cent = Fin False 1 (- 2)"
definition zero_amount :: decimal where "zero_amount = Fin False 0 (- 2)"

subsection \<open>\<^verbatim>\<open>moneyfmt\<close>\<close>

text \<open>
  Any exception of the conversion or of \<^verbatim>\<open>quantize\<close> becomes
  \<^verbatim>\<open>ValueError("Amount must be numeric")\<close>; a failure of the locale's formatter falls back
  to \<^verbatim>\<open>f"${amt:,}"\<close>.
\<close>

definition moneyfmt :: "host \<Rightarrow> pyval \<Rightarrow> error + string" where
  "moneyfmt h amount =
     (case on_ok (Decimal_of amount) (\<lambda>d. quantize d cent ROUND_HALF_UP) of
        Inl e \<Rightarrow> Inl (ValueError ''Amount must be numeric'')
      | Inr amt \<Rightarrow>
          (case locale_currency h amt of
             Some s \<Rightarrow> Inr s
           | None \<Rightarrow> Inr (''$'' @ format_grouped h amt)))"

subsection \<open>\<^verbatim>\<open>compute_totals\<close>\<close>

text \<open>\<^verbatim>\<open>it.get(k, default)\<close> on an item: only a dictionary has the method.\<close>

definition item_get :: "pyval \<Rightarrow> string \<Rightarrow> pyval \<Rightarrow> error + pyval" where
  "item_get it k dflt = (case it of PDict d \<Rightarrow> Inr (dict_get d k dflt) | _ \<Rightarrow> Inl AttributeError)"

text \<open>The first three statements of the loop body: the line total of one item.\<close>

definition line_total :: "host \<Rightarrow> pyval \<Rightarrow> error + decimal" where
  "line_total h it =
     on_ok (item_get it ''qty'' (PInt 0)) (\<lambda>qv.
     on_ok (to_decimal h qv) (\<lambda>qty.
     on_ok (item_get it ''unit_price'' (PStr ''0.00'')) (\<lambda>uv.
     on_ok (to_decimal h uv) (\<lambda>unit.
     on_ok (dec_mul qty unit) (\<lambda>p.
     quantize p cent ROUND_HALF_UP)))))"

text \<open>\<^verbatim>\<open>it['_line_total'] = line\<close>.\<close>

definition set_line_total :: "pyval \<Rightarrow> decimal \<Rightarrow> pyval" where
  "set_line_total it line =
     (case it of PDict d \<Rightarrow> PDict (dict_set d ''_line_total'' (PDecimal line)) | _ \<Rightarrow> it)"

text \<open>
  The loop over the items. The items are changed in place, so the loop returns them as it
  leaves them: when an item raises, the items before it already carry their line total
  and the rest are untouched.
\<close>

fun totals_loop :: "host \<Rightarrow> pyval list \<Rightarrow> decimal \<Rightarrow> (error + decimal) \<times> pyval list" where
  "totals_loop h [] subtotal = (Inr subtotal, [])"
| "totals_loop h (it # rest) subtotal =
     (case line_total h it of
        Inl e \<Rightarrow> (Inl e, it # rest)
      | Inr line \<Rightarrow>
          (case dec_add subtotal line of
             Inl e \<Rightarrow> (Inl e, set_line_total it line # rest)
           | Inr subtotal' \<Rightarrow>
               (case totals_loop h rest subtotal' of
                  (res, rest') \<Rightarrow> (res, set_line_total it line # rest'))))"

definition compute_totals ::
  "host \<Rightarrow> pyval list \<Rightarrow> pyval \<Rightarrow> (error + decimal \<times> decimal \<times> decimal) \<times> pyval list" where
  "compute_totals h items tax_rate =
     (case totals_loop h items zero_amount of
        (res, items') \<Rightarrow>
          (on_ok res (\<lambda>subtotal0.
           on_ok (quantize subtotal0 cent ROUND_HALF_UP) (\<lambda>subtotal.
           on_ok (to_decimal h tax_rate) (\<lambda>rate.
           on_ok (dec_mul subtotal rate) (\<lambda>t.
           on_ok (quantize t cent ROUND_HALF_UP) (\<lambda>tax.
           on_ok (dec_add subtotal tax) (\<lambda>s.
           on_ok (quantize s cent ROUND_HALF_UP) (\<lambda>total.
           Inr (subtotal, tax, total)))))))),
           items'))"

subsection \<open>\<^verbatim>\<open>validate_invoice_data\<close>\<close>

text \<open>
  The record is passed by reference and changed in place: it lives in a store, the
  function takes its address and returns the store it leaves with what it returns or
  raises.
\<close>

type_synonym store = "nat \<Rightarrow> pydict"

definition required :: "string list" where
  "required = [''invoice_number'', ''date'', ''bill_to'', ''items'']"

fun check_required :: "string list \<Rightarrow> pydict \<Rightarrow> error option" where
  "check_required [] data = None"
| "check_required (k # ks) data =
     (if \<not> dict_has data k then Some (ValueError (''Missing required invoice field: '' @ k))
      else check_required ks data)"

definition is_list :: "pyval \<Rightarrow> bool" where
  "is_list v = (case v of PList xs \<Rightarrow> True | _ \<Rightarrow> False)"

definition validate_invoice_data :: "store \<Rightarrow> nat \<Rightarrow> (error + nat) \<times> store" where
  "validate_invoice_data st data =
     (case check_required required (st data) of
        Some e \<Rightarrow> (Inl e, st)
      | None \<Rightarrow>
          (case dict_index (st data) ''items'' of
             Inl e \<Rightarrow> (Inl e, st)
           | Inr items \<Rightarrow>
               if \<not> is_list items then (Inl (ValueError ''items must be a list''), st)
               else
                 let st1 = st(data := setdefault (st data) ''tax_rate'' (PFloat (FFin False 0 0)));
                     st2 = st1(data := setdefault (st1 data) ''due_date'' PNone);
                     st3 = st2(data := setdefault (st2 data) ''notes'' (PStr []))
                 in (Inr data, st3)))"

subsection \<open>\<^verbatim>\<open>generate_invoice\<close>, up to the items table\<close>

text \<open>
  One row of the items table. \<^verbatim>\<open>Paragraph(desc, normal)\<close> and \<^verbatim>\<open>str(qty)\<close> belong to the
  layout, so the first two cells are kept as the values handed to them. \<open>recomputed\<close>
  records which branch gave the line total: \<open>True\<close> is the branch taken when
  \<^verbatim>\<open>it.get('_line_total', None)\<close> is \<^verbatim>\<open>None\<close>.
\<close>

record row =
  desc_cell :: pyval
  qty_cell :: pyval
  unit_cell :: string
  line_cell :: string
  recomputed :: bool

definition table_row :: "host \<Rightarrow> pyval \<Rightarrow> error + row" where
  "table_row h it =
     on_ok (item_get it ''description'' (PStr [])) (\<lambda>desc.
     on_ok (item_get it ''qty'' (PInt 0)) (\<lambda>qty.
     on_ok (item_get it ''unit_price'' (PInt 0)) (\<lambda>unit.
     on_ok (item_get it ''_line_total'' PNone) (\<lambda>lt.
     on_ok (if lt = PNone
            then on_ok (to_decimal h qty) (\<lambda>q.
                 on_ok (to_decimal h unit) (\<lambda>u.
                 on_ok (dec_mul q u) (\<lambda>p. Inr (PDecimal p))))
            else Inr lt) (\<lambda>line_total.
     on_ok (moneyfmt h unit) (\<lambda>unit_text.
     on_ok (moneyfmt h line_total) (\<lambda>line_text.
     Inr \<lparr>desc_cell = desc, qty_cell = qty, unit_cell = unit_text, line_cell = line_text,
          recomputed = (lt = PNone)\<rparr>)))))))"

fun table_rows :: "host \<Rightarrow> pyval list \<Rightarrow> error + row list" where
  "table_rows h [] = Inr []"
| "table_rows h (it # rest) =
     on_ok (table_row h it) (\<lambda>r. on_ok (table_rows h rest) (\<lambda>rs. Inr (r # rs)))"

text \<open>
  \<^verbatim>\<open>generate_invoice\<close> from its first line to the end of the loop that fills the items
  table: it returns the rows of the items and the three totals, or what was raised, and
  the store. The items list belongs to the record, so the line totals that
  \<^verbatim>\<open>compute_totals\<close> attaches are written back to the record.
\<close>

definition generate_invoice ::
  "host \<Rightarrow> store \<Rightarrow> nat \<Rightarrow> (error + row list \<times> decimal \<times> decimal \<times> decimal) \<times> store" where
  "generate_invoice h st invoice_data =
     (case validate_invoice_data st invoice_data of
        (Inl e, st') \<Rightarrow> (Inl e, st')
      | (Inr data, st') \<Rightarrow>
          (case dict_index (st' data) ''items'' of
             Inl e \<Rightarrow> (Inl e, st')
           | Inr (PList items) \<Rightarrow>
               (case compute_totals h items
                       (dict_get (st' data) ''tax_rate'' (PFloat (FFin False 0 0))) of
                  (res, items') \<Rightarrow>
                    let st'' = st'(data := dict_set (st' data) ''items'' (PList items')) in
                    (on_ok res (\<lambda>(subtotal, tax, total).
                     on_ok (case header_blocks h (st'' data) of
                              Some e \<Rightarrow> Inl e | None \<Rightarrow> Inr ()) (\<lambda>_.
                     on_ok (table_rows h items') (\<lambda>rows.
                     Inr (rows, subtotal, tax, total)))),
                     st''))
           | Inr _ \<Rightarrow> (Inl TypeError, st')))"

section \<open>What the specification says, and the examples\<close>

text \<open>
  The specification speaks of sequence types, of the normalized record, of the exact value
  of a decimal and of rounding half-up to two decimals. These definitions follow its words;
  the theorems below compare the program with them.
\<close>

definition is_sequence :: "pyval \<Rightarrow> bool" where
  "is_sequence v =
     (case v of PList xs \<Rightarrow> True | PTuple xs \<Rightarrow> True | PStr s \<Rightarrow> True | _ \<Rightarrow> False)"

definition normalized :: "pydict \<Rightarrow> pydict" where
  "normalized d =
     setdefault (setdefault (setdefault d ''tax_rate'' (PFloat (FFin False 0 0)))
       ''due_date'' PNone) ''notes'' (PStr [])"

definition is_finite :: "decimal \<Rightarrow> bool" where
  "is_finite d = (case d of Fin s c e \<Rightarrow> True | _ \<Rightarrow> False)"

definition dval :: "decimal \<Rightarrow> rat" where
  "dval d = (case d of Fin s c e \<Rightarrow> of_int (signed s c) * power_int 10 e | _ \<Rightarrow> 0)"

text \<open>Half-up rounding to two decimals: a tie goes to the neighbour of larger magnitude.\<close>

definition round_half_up :: "rat \<Rightarrow> rat" where
  "round_half_up x = sgn x * of_int \<lfloor>\<bar>x\<bar> * 100 + 1 / 2\<rfloor> / 100"

text \<open>
  The totals as the specification computes them, on exact numbers: the number a value
  stands for is the finite decimal that \<^verbatim>\<open>Decimal(str(v))\<close> reads; a missing \<^verbatim>\<open>qty\<close> or
  \<^verbatim>\<open>unit_price\<close> counts as zero; the line total is the product rounded half-up; the
  subtotal is the rounded sum of the line totals, the tax the rounded product of subtotal
  and rate, the total the rounded sum of subtotal and tax.
\<close>

definition number_of :: "host \<Rightarrow> pyval \<Rightarrow> rat option" where
  "number_of h v =
     (case to_decimal h v of Inr (Fin s c e) \<Rightarrow> Some (dval (Fin s c e)) | _ \<Rightarrow> None)"

definition spec_qty :: "host \<Rightarrow> pydict \<Rightarrow> rat option" where
  "spec_qty h d = (case map_of d ''qty'' of None \<Rightarrow> Some 0 | Some v \<Rightarrow> number_of h v)"

definition spec_unit_price :: "host \<Rightarrow> pydict \<Rightarrow> rat option" where
  "spec_unit_price h d =
     (case map_of d ''unit_price'' of None \<Rightarrow> Some 0 | Some v \<Rightarrow> number_of h v)"

definition spec_line_total :: "host \<Rightarrow> pyval \<Rightarrow> rat" where
  "spec_line_total h it =
     (case it of
        PDict d \<Rightarrow>
          (case (spec_qty h d, spec_unit_price h d) of
             (Some q, Some u) \<Rightarrow> round_half_up (q * u)
           | _ \<Rightarrow> 0)
      | _ \<Rightarrow> 0)"

definition spec_subtotal :: "host \<Rightarrow> pyval list \<Rightarrow> rat" where
  "spec_subtotal h items = round_half_up (sum_list (map (spec_line_total h) items))"

definition spec_tax :: "host \<Rightarrow> pyval list \<Rightarrow> pyval \<Rightarrow> rat" where
  "spec_tax h items tax_rate =
     round_half_up (spec_subtotal h items
       * (case number_of h tax_rate of None \<Rightarrow> 0 | Some r \<Rightarrow> r))"

definition spec_total :: "host \<Rightarrow> pyval list \<Rightarrow> pyval \<Rightarrow> rat" where
  "spec_total h items tax_rate =
     round_half_up (spec_subtotal h items + spec_tax h items tax_rate)"

text \<open>
  A decimal is an amount \<open>x\<close> when it is finite, has two decimals and the value \<open>x\<close>.
  An item carries its line total when it is the old item with \<^verbatim>\<open>_line_total\<close> set to the
  amount the specification gives.
\<close>

definition is_amount :: "decimal \<Rightarrow> rat \<Rightarrow> bool" where
  "is_amount d x = (case d of Fin s c e \<Rightarrow> e = - 2 \<and> dval d = x | _ \<Rightarrow> False)"

definition line_attached :: "host \<Rightarrow> pyval \<Rightarrow> pyval \<Rightarrow> bool" where
  "line_attached h it it' =
     (case item_get it' ''_line_total'' PNone of
        Inr (PDecimal line) \<Rightarrow>
          it' = set_line_total it line \<and> is_amount line (spec_line_total h it)
      | _ \<Rightarrow> False)"

text \<open>
  The working precision. The product of two finite decimals is exact in the context when
  the product of their coefficients has at most 28 digits and its exponent is not below
  \<open>Etiny\<close>. A run of \<^verbatim>\<open>compute_totals\<close> stays within the precision when every item is a
  dictionary whose \<^verbatim>\<open>qty\<close> and \<^verbatim>\<open>unit_price\<close> read as finite decimals with an exact product,
  the magnitudes of the line totals sum to less than \<open>10 ^ 26\<close>, the rate reads as a finite
  decimal whose product with the subtotal is exact, and tax and total are below
  \<open>10 ^ 26\<close> in magnitude.
\<close>

definition coefficient :: "decimal \<Rightarrow> nat" where
  "coefficient d = (case d of Fin s c e \<Rightarrow> c | _ \<Rightarrow> 0)"

definition exponent :: "decimal \<Rightarrow> int" where
  "exponent d = (case d of Fin s c e \<Rightarrow> e | _ \<Rightarrow> 0)"

definition exact_product :: "decimal \<Rightarrow> decimal \<Rightarrow> bool" where
  "exact_product a b =
     (is_finite a \<and> is_finite b \<and> coefficient a * coefficient b < 10 ^ 28
      \<and> (coefficient a * coefficient b = 0 \<or> Etiny \<le> exponent a + exponent b))"

definition cents :: "rat \<Rightarrow> decimal" where
  "cents x = Fin (x < 0) (nat \<bar>\<lfloor>x * 100\<rfloor>\<bar>) (- 2)"

definition item_in_precision :: "host \<Rightarrow> pyval \<Rightarrow> bool" where
  "item_in_precision h it =
     (case it of
        PDict d \<Rightarrow>
          (case (to_decimal h (dict_get d ''qty'' (PInt 0)),
                 to_decimal h (dict_get d ''unit_price'' (PStr ''0.00''))) of
             (Inr q, Inr u) \<Rightarrow> exact_product q u
           | _ \<Rightarrow> False)
      | _ \<Rightarrow> False)"

definition within_precision :: "host \<Rightarrow> pyval list \<Rightarrow> pyval \<Rightarrow> bool" where
  "within_precision h items tax_rate =
     (list_all (item_in_precision h) items
      \<and> sum_list (map (\<lambda>it. \<bar>spec_line_total h it\<bar>) items) < 10 ^ 26
      \<and> (case to_decimal h tax_rate of
            Inr r \<Rightarrow> exact_product (cents (spec_subtotal h items)) r
          | _ \<Rightarrow> False)
      \<and> \<bar>spec_tax h items tax_rate\<bar> < 10 ^ 26
      \<and> \<bar>spec_subtotal h items + spec_tax h items tax_rate\<bar> < 10 ^ 26)"



definition is_error :: "error + 'a \<Rightarrow> bool" where
  "is_error r = (case r of Inl e \<Rightarrow> True | Inr x \<Rightarrow> False)"

text \<open>
  A host for the examples: it has no locale (\<^verbatim>\<open>locale.currency\<close> raises, as in the C
  locale), its layout calls raise nothing, and it knows the text of integral floats below
  \<open>10 ^ 16\<close> and of the floats 10.005, 1.125, 0.155 and 0.0825.
\<close>

definition demo_repr :: "pyfloat \<Rightarrow> string" where
  "demo_repr f =
     (case f of
        FNaN \<Rightarrow> ''nan''
      | FInf s \<Rightarrow> (if s then ''-inf'' else ''inf'')
      | FFin s n k \<Rightarrow>
          (if s then ''-'' else []) @
          (if k = 0 \<and> n < 10 ^ 16 then str_nat n @ ''.0''
           else if n = 5632314283980227 \<and> k = 49 then ''10.005''
           else if n = 9 \<and> k = 3 then ''1.125''
           else if n = 5584463537939415 \<and> k = 55 then ''0.155''
           else if n = 5944751508129055 \<and> k = 56 then ''0.0825''
           else ''nan''))"

fun commas :: "string \<Rightarrow> string" where
  "commas (a # b # c # d # r) = a # b # c # CHR '','' # commas (d # r)"
| "commas r = r"

definition demo_format :: "decimal \<Rightarrow> string" where
  "demo_format d =
     (let (neg, r) = split_sign (str_decimal d) in
      (if neg then ''-'' else []) @ rev (commas (rev (takeWhile is_digit r)))
        @ dropWhile is_digit r)"

definition demo_host :: host where
  "demo_host = \<lparr>float_repr = demo_repr, locale_currency = Map.empty,
     format_grouped = demo_format, header_blocks = Map.empty\<rparr>"

definition empty_store :: store where
  "empty_store = (\<lambda>a. [])"

definition demo_record :: pydict where
  "demo_record =
     [(''invoice_number'', PStr ''CTCG-2025-0001''), (''date'', PStr ''2025-01-31''),
      (''bill_to'', PDict [(''name'', PStr ''Ms. Jane Doe'')]),
      (''items'', PList [PDict [(''description'', PStr ''Force of Will''), (''qty'', PInt 1),
         (''unit_price'', PFloat (FFin False 450 0))]]),
      (''tax_rate'', PInt 0)]"

text \<open>
  The items of the demonstration invoice of the source file, and the item of the
  specification's rounding example (3 at 10.005).
\<close>

definition demo_items :: "pyval list" where
  "demo_items =
     [PDict [(''description'', PStr ''Black Lotus (Alpha)''), (''qty'', PInt 1),
             (''unit_price'', PFloat (FFin False 125000 0))],
      PDict [(''description'', PStr ''Tarmogoyf (Legacy playset)''), (''qty'', PInt 4),
             (''unit_price'', PFloat (FFin False 200 0))],
      PDict [(''description'', PStr ''Force of Will (Legacy)''), (''qty'', PInt 1),
             (''unit_price'', PFloat (FFin False 450 0))]]"


text \<open>
  Inputs beyond the working precision: an item of 26-digit quantity at 1.125, and an item
  priced with 28 digits together with the rate 0.155. The rate 0.0825 is an ordinary one.
\<close>

definition huge_item :: pyval where
  "huge_item =
     PDict [(''qty'', PInt 10000000000000000000000001), (''unit_price'', PFloat (FFin False 9 3))]"

definition precise_item :: pyval where
  "precise_item =
     PDict [(''qty'', PInt 1), (''unit_price'', PStr ''10000000000000000000000000.03'')]"

definition rate_0155 :: pyval where
  "rate_0155 = PFloat (FFin False 5584463537939415 55)"

definition rate_00825 :: pyval where
  "rate_00825 = PFloat (FFin False 5944751508129055 56)"

text \<open>
  A record whose \<^verbatim>\<open>items\<close> is an empty tuple, an item whose quantity is the float NaN, and
  an item whose quantity is the text \<^verbatim>\<open>abc\<close>.
\<close>

definition tuple_record :: pydict where
  "tuple_record =
     [(''invoice_number'', PStr ''CTCG-2025-0002''), (''date'', PStr ''2025-02-01''),
      (''bill_to'', PDict [(''name'', PStr ''Ms. Jane Doe'')]), (''items'', PTuple [])]"



declare dec_fix.simps [simp del]

section \<open>Validation\<close>

lemma check_required_first_missing:
  "\<forall>j \<in> set pre. dict_has d j \<Longrightarrow> \<not> dict_has d k \<Longrightarrow>
   check_required (pre @ k # post) d = Some (ValueError (''Missing required invoice field: '' @ k))"
  by (induction pre) simp_all

lemma check_required_none:
  "check_required ks d = None \<longleftrightarrow> (\<forall>k \<in> set ks. dict_has d k)"
  by (induction ks) simp_all

lemma dict_index_eq: "dict_index d k = Inr v \<longleftrightarrow> map_of d k = Some v"
  by (simp add: dict_index_def split: option.splits)

lemma map_of_dict_set: "map_of (dict_set d k v) = (map_of d)(k \<mapsto> v)"
  by (simp add: dict_set_def update_conv')

lemma map_of_setdefault:
  "map_of (setdefault d k v) k' =
     (if k' = k \<and> \<not> dict_has d k then Some v else map_of d k')"
  by (simp add: setdefault_def map_of_dict_set dict_has_def)

lemma dict_has_setdefault: "dict_has (setdefault d k v) k' \<longleftrightarrow> k' = k \<or> dict_has d k'"
  by (auto simp: dict_has_def map_of_setdefault)

lemma update_fresh: "map_of d k = None \<Longrightarrow> AList.update k v d = d @ [(k, v)]"
  by (induction d) (auto split: if_splits)

lemma setdefault_extends: "\<exists>new. setdefault d k v = d @ new"
  by (auto simp: setdefault_def dict_set_def dict_has_def update_fresh)

lemma validate_ok:
  assumes "\<forall>k \<in> set required. dict_has (st data) k"
    and "map_of (st data) ''items'' = Some (PList xs)"
  shows "validate_invoice_data st data = (Inr data, st(data := normalized (st data)))"
proof -
  have "check_required required (st data) = None"
    using assms(1) by (simp add: check_required_none)
  moreover have "dict_index (st data) ''items'' = Inr (PList xs)"
    using assms(2) by (simp add: dict_index_eq)
  ultimately show ?thesis
    by (simp add: validate_invoice_data_def is_list_def normalized_def Let_def)
qed

lemma validate_not_list:
  assumes "\<forall>k \<in> set required. dict_has (st data) k"
    and "map_of (st data) ''items'' = Some v" and "\<not> is_list v"
  shows "validate_invoice_data st data = (Inl (ValueError ''items must be a list''), st)"
proof -
  have "check_required required (st data) = None"
    using assms(1) by (simp add: check_required_none)
  moreover have "dict_index (st data) ''items'' = Inr v"
    using assms(2) by (simp add: dict_index_eq)
  ultimately show ?thesis
    using assms(3) by (simp add: validate_invoice_data_def)
qed

lemma demo_record_required: "\<forall>k \<in> set required. dict_has demo_record k"
  by (simp add: required_def dict_has_def demo_record_def)

text \<open>
  C2. When a required field is missing, \<^verbatim>\<open>validate_invoice_data\<close> raises the
  \<^verbatim>\<open>ValueError\<close> that names the first missing key in the order \<^verbatim>\<open>invoice_number\<close>,
  \<^verbatim>\<open>date\<close>, \<^verbatim>\<open>bill_to\<close>, \<^verbatim>\<open>items\<close>. The record is left as it was, and
  \<^verbatim>\<open>generate_invoice\<close> stops there with the same error: nothing is computed or normalized.
\<close>

theorem validate_missing_field:
  assumes "required = pre @ k # post"
    and "\<forall>j \<in> set pre. dict_has (st data) j"
    and "\<not> dict_has (st data) k"
  shows "validate_invoice_data st data
           = (Inl (ValueError (''Missing required invoice field: '' @ k)), st)
       \<and> generate_invoice h st data
           = (Inl (ValueError (''Missing required invoice field: '' @ k)), st)"
proof -
  have "check_required required (st data)
          = Some (ValueError (''Missing required invoice field: '' @ k))"
    unfolding assms(1) by (rule check_required_first_missing [OF assms(2,3)])
  then have "validate_invoice_data st data
           = (Inl (ValueError (''Missing required invoice field: '' @ k)), st)"
    by (simp add: validate_invoice_data_def)
  then show ?thesis by (simp add: generate_invoice_def)
qed

theorem validate_missing_field_witness:
  "required = [''invoice_number''] @ ''date'' # [''bill_to'', ''items'']
   \<and> dict_has ((empty_store(0 := [(''invoice_number'', PStr ''CTCG-1''), (''items'', PList [])])) 0)
         ''invoice_number''
   \<and> \<not> dict_has ((empty_store(0 := [(''invoice_number'', PStr ''CTCG-1''), (''items'', PList [])])) 0) ''date''
   \<and> validate_invoice_data
        (empty_store(0 := [(''invoice_number'', PStr ''CTCG-1''), (''items'', PList [])])) 0
       = (Inl (ValueError ''Missing required invoice field: date''),
          empty_store(0 := [(''invoice_number'', PStr ''CTCG-1''), (''items'', PList [])]))
   \<and> generate_invoice demo_host
        (empty_store(0 := [(''invoice_number'', PStr ''CTCG-1''), (''items'', PList [])])) 0
       = (Inl (ValueError ''Missing required invoice field: date''),
          empty_store(0 := [(''invoice_number'', PStr ''CTCG-1''), (''items'', PList [])]))"
  using validate_missing_field [of "[''invoice_number'']" "''date''" "[''bill_to'', ''items'']"
      "empty_store(0 := [(''invoice_number'', PStr ''CTCG-1''), (''items'', PList [])])" 0 demo_host]
  by (simp add: required_def dict_has_def)

text \<open>
  C3, as the specification states it: a record with all required fields is rejected if and
  only if \<^verbatim>\<open>items\<close> is not a sequence type. The program rejects a tuple, which is a
  sequence.
\<close>

theorem validate_tuple_rejected:
  "is_sequence (PTuple [])
   \<and> list_all (dict_has [(''invoice_number'', PStr ''CTCG-1''), (''date'', PStr ''2025-01-01''),
        (''bill_to'', PDict []), (''items'', PTuple [])]) required
   \<and> fst (validate_invoice_data
        (empty_store(0 := [(''invoice_number'', PStr ''CTCG-1''), (''date'', PStr ''2025-01-01''),
           (''bill_to'', PDict []), (''items'', PTuple [])])) 0)
       = Inl (ValueError ''items must be a list'')"
  by (simp add: is_sequence_def validate_invoice_data_def required_def dict_has_def
      dict_index_def is_list_def)

text \<open>
  C3, amended: a record with all required fields passes if \<^verbatim>\<open>items\<close> is a list and raises
  \<^verbatim>\<open>ValueError("items must be a list")\<close> if it is anything else.
\<close>

theorem validate_items_list:
  assumes "\<forall>k \<in> set required. dict_has (st data) k"
    and "map_of (st data) ''items'' = Some v"
  shows "fst (validate_invoice_data st data)
           = (if \<exists>xs. v = PList xs then Inr data else Inl (ValueError ''items must be a list''))"
proof (cases "\<exists>xs. v = PList xs")
  case True
  then obtain xs where "v = PList xs" by blast
  then show ?thesis using validate_ok [of st data xs] assms by simp
next
  case False
  then have "\<not> is_list v" by (auto simp: is_list_def split: pyval.splits)
  then show ?thesis using validate_not_list [of st data v] assms False by simp
qed

theorem validate_items_list_witness:
  "list_all (dict_has ((empty_store(0 := demo_record)) 0)) required
   \<and> map_of ((empty_store(0 := demo_record)) 0) ''items''
       = Some (PList [PDict [(''description'', PStr ''Force of Will''), (''qty'', PInt 1),
           (''unit_price'', PFloat (FFin False 450 0))]])
   \<and> fst (validate_invoice_data (empty_store(0 := demo_record)) 0) = Inr 0"
proof -
  have r: "\<forall>k \<in> set required. dict_has ((empty_store(0 := demo_record)) 0) k"
    using demo_record_required by simp
  have i: "map_of ((empty_store(0 := demo_record)) 0) ''items''
       = Some (PList [PDict [(''description'', PStr ''Force of Will''), (''qty'', PInt 1),
           (''unit_price'', PFloat (FFin False 450 0))]])"
    by (simp add: demo_record_def)
  show ?thesis
    using r i validate_items_list [of "empty_store(0 := demo_record)" 0, OF r i]
    by (simp add: list_all_iff)
qed

text \<open>
  C6, as the specification states it: on every record that contains the required fields
  the defaults are inserted and the record is returned. The record of the example with a
  tuple for \<^verbatim>\<open>items\<close> contains the four required fields; \<^verbatim>\<open>validate_invoice_data\<close> raises,
  returns no reference, and the record has gained no \<^verbatim>\<open>notes\<close>: the store is as it was.
\<close>

theorem validate_defaults_need_list:
  "list_all (dict_has tuple_record) required
   \<and> fst (validate_invoice_data (empty_store(0 := tuple_record)) 0)
       = Inl (ValueError ''items must be a list'')
   \<and> snd (validate_invoice_data (empty_store(0 := tuple_record)) 0)
       = empty_store(0 := tuple_record)
   \<and> map_of (snd (validate_invoice_data (empty_store(0 := tuple_record)) 0) 0) ''notes'' = None"
  by (simp add: validate_invoice_data_def required_def dict_has_def dict_index_def is_list_def
      tuple_record_def)

text \<open>
  C6, amended. On a record with the required fields whose \<^verbatim>\<open>items\<close> is a list, validation
  returns the address it was given; no other address of the store changes; the record keeps every
  entry it had, in place, with its value (also a falsy one); the only keys it gains are
  \<^verbatim>\<open>tax_rate\<close>, \<^verbatim>\<open>due_date\<close> and \<^verbatim>\<open>notes\<close>, and those that were absent hold \<^verbatim>\<open>0.0\<close>,
  \<^verbatim>\<open>None\<close> and \<^verbatim>\<open>''\<close>.
\<close>

theorem validate_defaults:
  assumes "\<forall>k \<in> set required. dict_has (st data) k"
    and "map_of (st data) ''items'' = Some (PList xs)"
  shows "fst (validate_invoice_data st data) = Inr data
      \<and> (let st' = snd (validate_invoice_data st data) in
          (\<forall>a. a \<noteq> data \<longrightarrow> st' a = st a)
        \<and> (\<exists>new. st' data = st data @ new)
        \<and> (\<forall>k v. map_of (st data) k = Some v \<longrightarrow> map_of (st' data) k = Some v)
        \<and> (\<forall>k. dict_has (st' data) k \<longleftrightarrow>
              dict_has (st data) k \<or> k \<in> {''tax_rate'', ''due_date'', ''notes''})
        \<and> (\<not> dict_has (st data) ''tax_rate'' \<longrightarrow>
              map_of (st' data) ''tax_rate'' = Some (PFloat (FFin False 0 0)))
        \<and> (\<not> dict_has (st data) ''due_date'' \<longrightarrow> map_of (st' data) ''due_date'' = Some PNone)
        \<and> (\<not> dict_has (st data) ''notes'' \<longrightarrow> map_of (st' data) ''notes'' = Some (PStr [])))"
proof -
  let ?d = "st data"
  have ext: "\<exists>new. normalized ?d = ?d @ new"
    unfolding normalized_def
    by (metis setdefault_extends append.assoc)
  have keep: "\<forall>k v. map_of ?d k = Some v \<longrightarrow> map_of (normalized ?d) k = Some v"
    by (auto simp: normalized_def map_of_setdefault dict_has_def)
  have keys: "\<forall>k. dict_has (normalized ?d) k \<longleftrightarrow>
      dict_has ?d k \<or> k \<in> {''tax_rate'', ''due_date'', ''notes''}"
    by (auto simp: normalized_def dict_has_setdefault)
  have new: "(\<not> dict_has ?d ''tax_rate'' \<longrightarrow>
              map_of (normalized ?d) ''tax_rate'' = Some (PFloat (FFin False 0 0)))
      \<and> (\<not> dict_has ?d ''due_date'' \<longrightarrow> map_of (normalized ?d) ''due_date'' = Some PNone)
      \<and> (\<not> dict_has ?d ''notes'' \<longrightarrow> map_of (normalized ?d) ''notes'' = Some (PStr []))"
    by (simp add: normalized_def map_of_setdefault dict_has_setdefault dict_has_def)
  show ?thesis
    using validate_ok [of st data xs] assms ext keep keys new by (simp add: Let_def)
qed

text \<open>
  At the example record, whose \<^verbatim>\<open>tax_rate\<close> is an explicit \<^verbatim>\<open>0\<close>: the zero stays, and
  \<^verbatim>\<open>due_date\<close> and \<^verbatim>\<open>notes\<close> are added.
\<close>

theorem validate_defaults_witness:
  "list_all (dict_has ((empty_store(0 := demo_record)) 0)) required
   \<and> map_of ((empty_store(0 := demo_record)) 0) ''items''
       = Some (PList [PDict [(''description'', PStr ''Force of Will''), (''qty'', PInt 1),
           (''unit_price'', PFloat (FFin False 450 0))]])
   \<and> fst (validate_invoice_data (empty_store(0 := demo_record)) 0) = Inr 0
   \<and> map_of (snd (validate_invoice_data (empty_store(0 := demo_record)) 0) 0) ''tax_rate''
       = Some (PInt 0)
   \<and> map_of (snd (validate_invoice_data (empty_store(0 := demo_record)) 0) 0) ''due_date''
       = Some PNone
   \<and> map_of (snd (validate_invoice_data (empty_store(0 := demo_record)) 0) 0) ''notes''
       = Some (PStr [])
   \<and> snd (validate_invoice_data (empty_store(0 := demo_record)) 0) 1 = []"
proof -
  have r: "\<forall>k \<in> set required. dict_has ((empty_store(0 := demo_record)) 0) k"
    using demo_record_required by simp
  have i: "map_of ((empty_store(0 := demo_record)) 0) ''items''
       = Some (PList [PDict [(''description'', PStr ''Force of Will''), (''qty'', PInt 1),
           (''unit_price'', PFloat (FFin False 450 0))]])"
    by (simp add: demo_record_def)
  have t: "map_of demo_record ''tax_rate'' = Some (PInt 0)"
    and d: "\<not> dict_has demo_record ''due_date''" and n: "\<not> dict_has demo_record ''notes''"
    by (simp_all add: demo_record_def dict_has_def)
  have e: "empty_store 1 = []" by (simp add: empty_store_def)
  show ?thesis
    using r i t d n e validate_defaults [of "empty_store(0 := demo_record)" 0, OF r i]
    by (simp add: Let_def list_all_iff)
qed

text \<open>
  C9. When \<^verbatim>\<open>validate_invoice_data\<close> raises, the store is the one it was given: no default
  has been inserted.
\<close>

theorem validate_failure_atomic:
  "fst (validate_invoice_data st data) = Inl e \<Longrightarrow> snd (validate_invoice_data st data) = st"
  by (auto simp: validate_invoice_data_def Let_def split: option.splits sum.splits if_splits)

theorem validate_failure_atomic_witness:
  "fst (validate_invoice_data
          (empty_store(0 := [(''invoice_number'', PStr ''CTCG-1''), (''date'', PStr ''2025-01-01''),
             (''bill_to'', PDict []), (''items'', PDict [])])) 0)
     = Inl (ValueError ''items must be a list'')
   \<and> snd (validate_invoice_data
          (empty_store(0 := [(''invoice_number'', PStr ''CTCG-1''), (''date'', PStr ''2025-01-01''),
             (''bill_to'', PDict []), (''items'', PDict [])])) 0)
     = empty_store(0 := [(''invoice_number'', PStr ''CTCG-1''), (''date'', PStr ''2025-01-01''),
             (''bill_to'', PDict []), (''items'', PDict [])])"
proof -
  have f: "fst (validate_invoice_data
          (empty_store(0 := [(''invoice_number'', PStr ''CTCG-1''), (''date'', PStr ''2025-01-01''),
             (''bill_to'', PDict []), (''items'', PDict [])])) 0)
     = Inl (ValueError ''items must be a list'')"
    by (simp add: validate_invoice_data_def required_def dict_has_def dict_index_def is_list_def)
  show ?thesis using f validate_failure_atomic [OF f] by simp
qed

section \<open>Digits, fixing and quantizing\<close>

lemma ndigits_pos: "0 < ndigits n"
  by (subst ndigits.simps) simp

lemma ndigits_le: "0 < k \<Longrightarrow> ndigits n \<le> k \<longleftrightarrow> n < 10 ^ k"
proof (induction n arbitrary: k rule: ndigits.induct)
  case (1 n)
  show ?case
  proof (cases "n < 10")
    case True
    have "(10::nat) ^ 1 \<le> 10 ^ k" using 1(2) by (intro power_increasing) auto
    then have "n < 10 ^ k" using True by simp
    moreover have "ndigits n = 1" using True by (subst ndigits.simps) simp
    ultimately show ?thesis using 1(2) by simp
  next
    case False
    then have nd: "ndigits n = Suc (ndigits (n div 10))" by (subst ndigits.simps) simp
    show ?thesis
    proof (cases "k = 1")
      case True
      then show ?thesis using False nd ndigits_pos [of "n div 10"] by simp
    next
      case k1: False
      then obtain j where k: "k = Suc j" and j: "0 < j" using 1(2) by (cases k) auto
      have "ndigits (n div 10) \<le> j \<longleftrightarrow> n div 10 < 10 ^ j"
        using 1(1) [OF False j] .
      also have "\<dots> \<longleftrightarrow> n < 10 ^ k"
        by (simp add: k div_less_iff_less_mult mult.commute)
      finally show ?thesis using nd k by simp
    qed
  qed
qed

lemma ndigits_lower: "c \<noteq> 0 \<Longrightarrow> 10 ^ (ndigits c - 1) \<le> c"
proof -
  assume c: "c \<noteq> 0"
  show ?thesis
  proof (cases "ndigits c = 1")
    case True
    then show ?thesis using c by simp
  next
    case False
    then have k: "0 < ndigits c - 1" using ndigits_pos [of c] by simp
    have "\<not> ndigits c \<le> ndigits c - 1" using ndigits_pos [of c] by simp
    then show ?thesis using ndigits_le [OF k, of c] by simp
  qed
qed

lemma dec_fix_exact:
  assumes "c \<noteq> 0" "c < 10 ^ 28" "Etiny \<le> e" "int (ndigits c) + e \<le> 1000000"
  shows "dec_fix (Fin s c e) = Inr (Fin s c e)"
proof -
  have nd: "ndigits c \<le> 28" using assms(2) by (simp add: ndigits_le)
  have 1: "\<not> Etop < int (ndigits c) + e - int prec"
    using assms(4) by (simp add: Etop_def Emax_def prec_def)
  have 2: "\<not> e < max (int (ndigits c) + e - int prec) Etiny"
    using nd assms(3) by (simp add: prec_def)
  show ?thesis
    using assms(1) 1 2 by (simp add: Let_def dec_fix.simps)
qed

lemma dec_fix_zero_cent: "dec_fix (Fin s 0 (- 2)) = Inr (Fin s 0 (- 2))"
  by (simp add: dec_fix.simps Etiny_def Emin_def Emax_def prec_def)

lemma round_digits_ge: "c div 10 ^ d \<le> round_digits r c d"
  by (cases r) (simp_all add: round_digits_def Let_def)

lemma rescale_bound:
  assumes "c \<noteq> 0" "rescale ROUND_HALF_UP c e (- 2) < 10 ^ 28"
  shows "int (ndigits c) + e \<le> 26"
proof (cases "- 2 \<le> e")
  case True
  define n where "n = ndigits c"
  have "10 ^ (n - 1) * 10 ^ nat (e + 2) \<le> c * 10 ^ nat (e + 2)"
    using ndigits_lower [OF assms(1)] by (simp add: n_def)
  also have "\<dots> < 10 ^ 28" using assms True by (simp add: rescale_def)
  finally have "(10::nat) ^ (n - 1 + nat (e + 2)) < 10 ^ 28" by (simp add: power_add)
  then have "n - 1 + nat (e + 2) < 28" by (simp only: power_strict_increasing_iff) 
  then show ?thesis using True ndigits_pos [of c] by (simp add: n_def)
next
  case False
  define d where "d = nat (- 2 - e)"
  have "c div 10 ^ d < 10 ^ 28"
    using round_digits_ge [of c d ROUND_HALF_UP] assms False
    by (simp add: rescale_def d_def)
  then have "c < 10 ^ (28 + d)" by (simp add: div_less_iff_less_mult power_add)
  then have "ndigits c \<le> 28 + d" by (simp add: ndigits_le)
  then show ?thesis using False by (simp add: d_def)
qed

lemma quantize_cent:
  "quantize (Fin s c e) cent ROUND_HALF_UP =
     (if rescale ROUND_HALF_UP c e (- 2) < 10 ^ 28
      then Inr (Fin s (rescale ROUND_HALF_UP c e (- 2)) (- 2))
      else Inl InvalidOperation)"
proof (cases "c = 0")
  case True
  then show ?thesis
    by (simp add: cent_def rescale_def dec_fix.simps Etiny_def Emin_def Emax_def prec_def)
next
  case c: False
  define a where "a = rescale ROUND_HALF_UP c e (- 2)"
  have range: "Etiny \<le> - 2 \<and> - 2 \<le> Emax" by (simp add: Etiny_def Emin_def Emax_def prec_def)
  show ?thesis
  proof (cases "a < 10 ^ 28")
    case True
    then have nd: "int (ndigits c) + e \<le> 26" using rescale_bound [OF c] by (simp add: a_def)
    have na: "ndigits a \<le> 28" using True by (simp add: ndigits_le)
    have fx: "dec_fix (Fin s a (- 2)) = Inr (Fin s a (- 2))"
    proof (cases "a = 0")
      case True then show ?thesis by (simp add: dec_fix_zero_cent)
    next
      case False
      then show ?thesis using True na
        by (intro dec_fix_exact) (simp_all add: Etiny_def Emin_def prec_def)
    qed
    show ?thesis
      using c True nd na fx range
      by (simp add: cent_def Let_def a_def [symmetric] prec_def Emax_def)
  next
    case False
    then have na: "\<not> ndigits a \<le> 28" by (simp add: ndigits_le)
    show ?thesis
      using c False na range
      by (simp add: cent_def Let_def a_def [symmetric] prec_def)
  qed
qed

section \<open>Quantizing is rounding half-up\<close>

lemma powi_shift: "power_int (10::rat) (int k - 2) * 100 = 10 ^ k"
proof -
  have "power_int (10::rat) (int k - 2) = power_int 10 (int k) / power_int 10 2"
    by (rule power_int_diff) simp
  then show ?thesis by simp
qed

lemma powi_neg: "power_int (10::rat) (- int d - 2) * 100 = 1 / 10 ^ d"
proof -
  have "power_int (10::rat) (- int d - 2) = power_int 10 (- int d) / power_int 10 2"
    by (rule power_int_diff) simp
  then show ?thesis by (simp add: power_int_minus field_simps)
qed

lemma half_up_div:
  fixes c p :: nat
  assumes "0 < p"
  shows "(2 * c + p) div (2 * p) = (if p \<le> 2 * (c mod p) then c div p + 1 else c div p)"
proof -
  define q r where "q = c div p" and "r = c mod p"
  have c: "c = q * p + r" and r: "r < p" using assms by (simp_all add: q_def r_def)
  show ?thesis
  proof (cases "p \<le> 2 * r")
    case True
    have "2 * c + p = (q + 1) * (2 * p) + (2 * r - p)" using True c by (simp add: algebra_simps)
    moreover have "2 * r - p < 2 * p" using r by simp
    ultimately have "(2 * c + p) div (2 * p) = q + 1"
      by (metis div_mult_self3 div_less add.right_neutral assms mult_pos_pos pos2 
          less_numeral_extra(3) mult_eq_0_iff zero_neq_numeral)
    then show ?thesis using True by (simp add: q_def r_def)
  next
    case False
    have "2 * c + p = q * (2 * p) + (2 * r + p)" using c by (simp add: algebra_simps)
    moreover have "2 * r + p < 2 * p" using False by simp
    ultimately have "(2 * c + p) div (2 * p) = q"
      by (metis div_mult_self3 div_less add.right_neutral assms mult_pos_pos pos2 
          less_numeral_extra(3) mult_eq_0_iff zero_neq_numeral)
    then show ?thesis using False by (simp add: q_def r_def)
  qed
qed


lemma floor_nat_half: "\<lfloor>(of_nat m :: rat) + 1 / 2\<rfloor> = int m"
  by (rule floor_unique) simp_all

lemma floor_half_up:
  "\<lfloor>(of_nat c :: rat) * power_int 10 e * 100 + 1 / 2\<rfloor> = int (rescale ROUND_HALF_UP c e (- 2))"
proof (cases "c = 0")
  case True
  then show ?thesis using floor_nat_half [of 0] by (simp add: rescale_def)
next
  case c: False
  show ?thesis
  proof (cases "- 2 \<le> e")
    case True
    then obtain k where e: "e = int k - 2" and k: "k = nat (e + 2)"
      by (metis add.commute diff_add_cancel int_nat_eq add_diff_cancel_left' diff_ge_0_iff_ge
          minus_diff_eq uminus_add_conv_diff)
    have "(of_nat c :: rat) * power_int 10 e * 100 = of_nat (c * 10 ^ k)"
      using powi_shift [of k] by (simp add: e mult.assoc)
    then have "\<lfloor>(of_nat c :: rat) * power_int 10 e * 100 + 1 / 2\<rfloor> = int (c * 10 ^ k)"
      by (simp only: floor_nat_half)
    then show ?thesis using c True by (simp add: rescale_def k)
  next
    case False
    define d where "d = nat (- 2 - e)"
    have e: "e = - int d - 2" and d: "0 < d" using False by (simp_all add: d_def)
    have "(of_nat c :: rat) * power_int 10 e * 100 = of_nat c / 10 ^ d"
      using powi_neg [of d] by (simp add: e mult.assoc)
    then have "(of_nat c :: rat) * power_int 10 e * 100 + 1 / 2
                 = of_nat (2 * c + 10 ^ d) / of_nat (2 * 10 ^ d)"
      by (simp add: field_simps)
    then have "\<lfloor>(of_nat c :: rat) * power_int 10 e * 100 + 1 / 2\<rfloor>
                 = int ((2 * c + 10 ^ d) div (2 * 10 ^ d))"
      by (simp only: floor_divide_of_nat_eq)
    also have "\<dots> = int (round_digits ROUND_HALF_UP c d)"
      by (simp add: half_up_div round_digits_def Let_def)
    finally show ?thesis using c False by (simp add: rescale_def d_def)
  qed
qed

lemma dval_Fin: "dval (Fin s c e) = of_int (signed s c) * power_int 10 e"
  by (simp add: dval_def)

lemma dval_cents: "dval (Fin s c (- 2)) = of_int (signed s c) / 100"
  by (simp add: dval_def power_int_minus field_simps)

lemma round_half_up_dval:
  "round_half_up (dval (Fin s c e)) = dval (Fin s (rescale ROUND_HALF_UP c e (- 2)) (- 2))"
proof -
  define p :: rat where "p = power_int 10 e"
  have p: "0 < p" by (simp add: p_def power_int_def)
  have ab: "\<bar>dval (Fin s c e)\<bar> = of_nat c * p"
    using p by (simp add: dval_Fin signed_def p_def abs_mult)
  have sg: "sgn (dval (Fin s c e)) = (if c = 0 then 0 else if s then - 1 else 1)"
    using p by (simp add: dval_Fin signed_def p_def sgn_mult)
  have fl: "\<lfloor>\<bar>dval (Fin s c e)\<bar> * 100 + 1 / 2\<rfloor> = int (rescale ROUND_HALF_UP c e (- 2))"
    unfolding ab p_def by (rule floor_half_up)
  have z: "c = 0 \<Longrightarrow> rescale ROUND_HALF_UP c e (- 2) = 0" by (simp add: rescale_def)
  show ?thesis
    unfolding round_half_up_def fl sg dval_cents using z by (simp add: signed_def)
qed

section \<open>Exact products and sums\<close>

lemma signed_mult:
  "(of_int (signed s c) :: rat) * of_int (signed t c') = of_int (signed (s \<noteq> t) (c * c'))"
  by (cases s; cases t) (simp_all add: signed_def)

lemma dval_mult: "dval (Fin s c e) * dval (Fin t c' e') = dval (Fin (s \<noteq> t) (c * c') (e + e'))"
proof -
  have "power_int (10::rat) (e + e') = power_int 10 e * power_int 10 e'"
    by (rule power_int_add) simp
  then show ?thesis
    unfolding dval_Fin signed_mult [symmetric] by (simp add: mult_ac)
qed

lemma dec_fix_zero: "\<exists>e'. dec_fix (Fin s 0 e) = Inr (Fin s 0 e')"
  by (simp add: dec_fix.simps)

lemma rescale_zero [simp]: "rescale r 0 e q = 0"
  by (simp add: rescale_def)

lemma line_exact:
  assumes "c * c' < 10 ^ 28" and "c * c' = 0 \<or> Etiny \<le> e + e'"
    and "rescale ROUND_HALF_UP (c * c') (e + e') (- 2) < 10 ^ 28"
  shows "on_ok (dec_mul (Fin s c e) (Fin t c' e')) (\<lambda>p. quantize p cent ROUND_HALF_UP)
           = Inr (Fin (s \<noteq> t) (rescale ROUND_HALF_UP (c * c') (e + e') (- 2)) (- 2))"
proof (cases "c * c' = 0")
  case True
  obtain e'' where "dec_fix (Fin (s \<noteq> t) 0 (e + e')) = Inr (Fin (s \<noteq> t) 0 e'')"
    using dec_fix_zero by blast
  then have "dec_mul (Fin s c e) (Fin t c' e') = Inr (Fin (s \<noteq> t) 0 e'')"
    by (simp only: dec_mul.simps True)
  then show ?thesis
    unfolding True by (simp add: on_ok_def quantize_cent)
next
  case False
  have "int (ndigits (c * c')) + (e + e') \<le> 26"
    using rescale_bound [OF False assms(3)] .
  then have "dec_fix (Fin (s \<noteq> t) (c * c') (e + e')) = Inr (Fin (s \<noteq> t) (c * c') (e + e'))"
    using False assms(1,2) by (intro dec_fix_exact) simp_all
  then show ?thesis
    using assms(3) by (simp add: on_ok_def quantize_cent)
qed

lemma dec_add_cents:
  "dec_add (Fin s a (- 2)) (Fin t b (- 2)) =
     dec_fix (Fin (if a = 0 \<and> b = 0 then s \<and> t else signed s a + signed t b < 0)
                  (nat \<bar>signed s a + signed t b\<bar>) (- 2))"
  by (simp add: Let_def signed_def)

lemma dec_add_cents_exact:
  assumes "\<bar>signed s a + signed t b\<bar> < 10 ^ 28"
  shows "\<exists>sg. dec_add (Fin s a (- 2)) (Fin t b (- 2))
                 = Inr (Fin sg (nat \<bar>signed s a + signed t b\<bar>) (- 2))
             \<and> signed sg (nat \<bar>signed s a + signed t b\<bar>) = signed s a + signed t b"
proof -
  define r where "r = signed s a + signed t b"
  define sg where "sg = (if a = 0 \<and> b = 0 then s \<and> t else r < 0)"
  have r: "nat \<bar>r\<bar> < 10 ^ 28" using assms by (simp add: r_def nat_less_iff)
  have fx: "dec_fix (Fin sg (nat \<bar>r\<bar>) (- 2)) = Inr (Fin sg (nat \<bar>r\<bar>) (- 2))"
  proof (cases "nat \<bar>r\<bar> = 0")
    case True then show ?thesis by (simp add: dec_fix_zero_cent)
  next
    case False
    have "ndigits (nat \<bar>r\<bar>) \<le> 28" using r by (simp add: ndigits_le)
    then show ?thesis using False r
      by (intro dec_fix_exact) (simp_all add: Etiny_def Emin_def prec_def)
  qed
  have sr: "signed sg (nat \<bar>r\<bar>) = r"
    by (auto simp: sg_def signed_def r_def)
  have "dec_add (Fin s a (- 2)) (Fin t b (- 2)) = dec_fix (Fin sg (nat \<bar>r\<bar>) (- 2))"
    unfolding dec_add_cents sg_def r_def ..
  then have "dec_add (Fin s a (- 2)) (Fin t b (- 2)) = Inr (Fin sg (nat \<bar>r\<bar>) (- 2))
      \<and> signed sg (nat \<bar>r\<bar>) = r"
    using fx sr by simp
  then show ?thesis unfolding r_def by (rule exI)
qed

section \<open>Evaluating the reader\<close>

lemma ndigits_0: "ndigits 0 = 1" by (subst ndigits.simps) simp
lemma ndigits_1: "ndigits 1 = 1" by (subst ndigits.simps) simp
lemma ndigits_numeral:
  "ndigits (numeral w) = (if numeral w < (10::nat) then 1 else Suc (ndigits (numeral w div 10)))"
  by (rule ndigits.simps)

lemma str_nat_0: "str_nat 0 = ''0''" by (subst str_nat.simps) simp
lemma str_nat_1: "str_nat 1 = ''1''" by (subst str_nat.simps) simp
lemma str_nat_Suc0: "str_nat (Suc 0) = ''1''" by (subst str_nat.simps) simp
lemma ndigits_Suc0: "ndigits (Suc 0) = 1" by (subst ndigits.simps) simp
lemma str_nat_numeral:
  "str_nat (numeral w) =
     (if numeral w < (10::nat) then [''0123456789'' ! numeral w]
      else str_nat (numeral w div 10) @ [''0123456789'' ! (numeral w mod 10)])"
  by (rule str_nat.simps)

lemmas parse_defs = Decimal_of_str_def strip_def is_space_def split_sign_def parse_number_def
  is_digit_def digits_val_def lower_def exact_def MAX_EMAX_def MIN_ETINY_def signed_def Let_def
  ndigits_0 ndigits_1 ndigits_Suc0 ndigits_numeral

lemmas str_defs = str_int_def str_nat_0 str_nat_1 str_nat_Suc0 str_nat_numeral

lemmas host_defs = demo_host_def demo_repr_def
lemmas spec_defs = spec_line_total_def spec_qty_def spec_unit_price_def number_of_def
lemmas round_defs = rescale_def round_digits_def
lemmas ctx_defs = prec_def Emax_def Emin_def Etiny_def Etop_def
lemmas run_defs = compute_totals_def line_total_def item_get_def dict_get_def set_line_total_def
  dict_set_def zero_amount_def dec_fix.simps quantize_cent
lemmas spec_eval = spec_defs dval_mult round_half_up_dval round_defs dval_cents signed_def

section \<open>The loop of \<^verbatim>\<open>compute_totals\<close>\<close>

lemma to_decimal_default_qty: "to_decimal h (PInt 0) = Inr (Fin False 0 0)"
  by (simp add: str_defs parse_defs)

lemma to_decimal_default_price: "to_decimal h (PStr ''0.00'') = Inr (Fin False 0 (- 2))"
  by (simp add: parse_defs)

lemma dval_zero [simp]: "dval (Fin s 0 e) = 0"
  by (simp add: dval_Fin signed_def)

lemma spec_qty_read:
  "to_decimal h (dict_get d ''qty'' (PInt 0)) = Inr (Fin s c e)
   \<Longrightarrow> spec_qty h d = Some (dval (Fin s c e))"
  using to_decimal_default_qty [of h]
  by (cases "map_of d ''qty''")
     (auto simp: spec_qty_def dict_get_def number_of_def simp del: to_decimal.simps)

lemma spec_unit_price_read:
  "to_decimal h (dict_get d ''unit_price'' (PStr ''0.00'')) = Inr (Fin t c' e')
   \<Longrightarrow> spec_unit_price h d = Some (dval (Fin t c' e'))"
  using to_decimal_default_price [of h]
  by (cases "map_of d ''unit_price''")
     (auto simp: spec_unit_price_def dict_get_def number_of_def simp del: to_decimal.simps)

lemma spec_line_read:
  assumes "to_decimal h (dict_get d ''qty'' (PInt 0)) = Inr (Fin s c e)"
    and "to_decimal h (dict_get d ''unit_price'' (PStr ''0.00'')) = Inr (Fin t c' e')"
  shows "spec_line_total h (PDict d)
           = dval (Fin (s \<noteq> t) (rescale ROUND_HALF_UP (c * c') (e + e') (- 2)) (- 2))"
  using spec_qty_read [OF assms(1)] spec_unit_price_read [OF assms(2)]
  by (simp add: spec_line_total_def dval_mult round_half_up_dval)

lemma abs_dval_cents: "\<bar>dval (Fin s a (- 2))\<bar> = of_nat a / 100"
  by (simp add: dval_cents signed_def)

lemma cents_bound: "\<bar>dval (Fin s a (- 2))\<bar> < 10 ^ 26 \<longleftrightarrow> a < 10 ^ 28"
proof -
  have "(of_nat a :: rat) / 100 < 10 ^ 26 \<longleftrightarrow> (of_nat a :: rat) < of_nat (10 ^ 28)"
    by (simp add: field_simps)
  also have "\<dots> \<longleftrightarrow> a < 10 ^ 28" by (simp only: of_nat_less_iff)
  finally show ?thesis by (simp add: abs_dval_cents)
qed

text \<open>One item within the precision: its line total is the amount of the specification.\<close>

lemma item_line:
  assumes "item_in_precision h it" and "\<bar>spec_line_total h it\<bar> < 10 ^ 26"
  shows "\<exists>s a. line_total h it = Inr (Fin s a (- 2)) \<and> a < 10 ^ 28
             \<and> dval (Fin s a (- 2)) = spec_line_total h it"
proof -
  from assms(1) obtain d where it: "it = PDict d"
    by (cases it) (simp_all add: item_in_precision_def)
  from assms(1) obtain q u where q: "to_decimal h (dict_get d ''qty'' (PInt 0)) = Inr q"
    and u: "to_decimal h (dict_get d ''unit_price'' (PStr ''0.00'')) = Inr u"
    and ex: "exact_product q u"
    by (auto simp: item_in_precision_def it split: sum.splits)
  from ex obtain s c e t c' e' where qf: "q = Fin s c e" and uf: "u = Fin t c' e'"
    by (cases q; cases u) (simp_all add: exact_product_def is_finite_def)
  have cc: "c * c' < 10 ^ 28" and ee: "c * c' = 0 \<or> Etiny \<le> e + e'"
    using ex by (simp_all add: exact_product_def qf uf coefficient_def exponent_def)
  define a where "a = rescale ROUND_HALF_UP (c * c') (e + e') (- 2)"
  have sp: "spec_line_total h it = dval (Fin (s \<noteq> t) a (- 2))"
    using spec_line_read [of h d s c e t c' e'] q u by (simp add: it qf uf a_def)
  then have a: "a < 10 ^ 28" using assms(2) by (simp only: cents_bound)
  have "on_ok (dec_mul (Fin s c e) (Fin t c' e')) (\<lambda>p. quantize p cent ROUND_HALF_UP)
           = Inr (Fin (s \<noteq> t) a (- 2))"
    unfolding a_def using cc ee a [unfolded a_def] by (rule line_exact)
  then have "line_total h it = Inr (Fin (s \<noteq> t) a (- 2))"
    using q u by (simp add: line_total_def it item_get_def qf uf on_ok_def)
  then have "line_total h it = Inr (Fin (s \<noteq> t) a (- 2)) \<and> a < 10 ^ 28
             \<and> dval (Fin (s \<noteq> t) a (- 2)) = spec_line_total h it"
    using a sp by simp
  then show ?thesis by (intro exI)
qed

lemma dval_signed_cents: "dval (Fin s a (- 2)) = of_int (signed s a) / 100"
  by (rule dval_cents)

lemma int_cents_bound:
  fixes r :: int
  assumes "\<bar>(of_int r :: rat) / 100\<bar> < 10 ^ 26"
  shows "\<bar>r\<bar> < 10 ^ 28"
proof -
  have "(of_int \<bar>r\<bar> :: rat) < of_int (10 ^ 28)" using assms by (simp add: field_simps)
  then show ?thesis by (simp only: of_int_less_iff)
qed

lemma add_amounts:
  assumes "\<bar>dval (Fin s a (- 2)) + dval (Fin t b (- 2))\<bar> < 10 ^ 26"
  shows "\<exists>sg n. dec_add (Fin s a (- 2)) (Fin t b (- 2)) = Inr (Fin sg n (- 2)) \<and> n < 10 ^ 28
           \<and> dval (Fin sg n (- 2)) = dval (Fin s a (- 2)) + dval (Fin t b (- 2))"
proof -
  define r where "r = signed s a + signed t b"
  have sum: "dval (Fin s a (- 2)) + dval (Fin t b (- 2)) = of_int r / 100"
    by (simp add: dval_cents r_def add_divide_distrib)
  have r: "\<bar>r\<bar> < 10 ^ 28" using assms unfolding sum by (rule int_cents_bound)
  from dec_add_cents_exact [of s a t b] r obtain sg
    where d: "dec_add (Fin s a (- 2)) (Fin t b (- 2)) = Inr (Fin sg (nat \<bar>r\<bar>) (- 2))"
      and sr: "signed sg (nat \<bar>r\<bar>) = r"
    unfolding r_def by blast
  have "nat \<bar>r\<bar> < 10 ^ 28" using r by (simp add: nat_less_iff)
  moreover have "dval (Fin sg (nat \<bar>r\<bar>) (- 2)) = dval (Fin s a (- 2)) + dval (Fin t b (- 2))"
    unfolding sum by (simp add: dval_cents sr)
  ultimately have "dec_add (Fin s a (- 2)) (Fin t b (- 2)) = Inr (Fin sg (nat \<bar>r\<bar>) (- 2))
      \<and> nat \<bar>r\<bar> < 10 ^ 28
      \<and> dval (Fin sg (nat \<bar>r\<bar>) (- 2)) = dval (Fin s a (- 2)) + dval (Fin t b (- 2))"
    using d by simp
  then show ?thesis by (intro exI)
qed

lemma item_in_precision_dict: "item_in_precision h it \<Longrightarrow> \<exists>d. it = PDict d"
  by (cases it) (simp_all add: item_in_precision_def)

lemma line_attached_set:
  assumes "it = PDict d" and "dval (Fin s a (- 2)) = spec_line_total h it"
  shows "line_attached h it (set_line_total it (Fin s a (- 2)))"
  using assms
  by (simp add: line_attached_def set_line_total_def item_get_def dict_get_def
      map_of_dict_set is_amount_def)

lemma totals_loop_spec:
  assumes "list_all (item_in_precision h) items"
    and "\<bar>dval (Fin s0 a0 (- 2))\<bar> + sum_list (map (\<lambda>it. \<bar>spec_line_total h it\<bar>) items) < 10 ^ 26"
  shows "\<exists>sg a items'. totals_loop h items (Fin s0 a0 (- 2)) = (Inr (Fin sg a (- 2)), items')
      \<and> dval (Fin sg a (- 2)) = dval (Fin s0 a0 (- 2)) + sum_list (map (spec_line_total h) items)
      \<and> list_all2 (line_attached h) items items'"
  using assms
proof (induction items arbitrary: s0 a0)
  case Nil
  then show ?case by simp
next
  case (Cons it rest)
  have nonneg: "0 \<le> sum_list (map (\<lambda>it. \<bar>spec_line_total h it\<bar>) rest)"
    by (rule sum_list_nonneg) auto
  have prec: "item_in_precision h it" and precs: "list_all (item_in_precision h) rest"
    using Cons.prems(1) by simp_all
  have bound: "\<bar>dval (Fin s0 a0 (- 2))\<bar> + \<bar>spec_line_total h it\<bar>
                 + sum_list (map (\<lambda>it. \<bar>spec_line_total h it\<bar>) rest) < 10 ^ 26"
    using Cons.prems(2) by simp
  have "\<bar>spec_line_total h it\<bar> < 10 ^ 26" using bound nonneg by linarith
  with item_line [OF prec] obtain s a where line: "line_total h it = Inr (Fin s a (- 2))"
    and sp: "dval (Fin s a (- 2)) = spec_line_total h it" by blast
  obtain d where it: "it = PDict d" using item_in_precision_dict [OF prec] by blast
  have "\<bar>dval (Fin s0 a0 (- 2)) + dval (Fin s a (- 2))\<bar> < 10 ^ 26"
    using bound nonneg sp by linarith
  with add_amounts obtain sg n where add: "dec_add (Fin s0 a0 (- 2)) (Fin s a (- 2)) = Inr (Fin sg n (- 2))"
    and val: "dval (Fin sg n (- 2)) = dval (Fin s0 a0 (- 2)) + dval (Fin s a (- 2))" by blast
  have "\<bar>dval (Fin sg n (- 2))\<bar> + sum_list (map (\<lambda>it. \<bar>spec_line_total h it\<bar>) rest) < 10 ^ 26"
    using bound val sp by linarith
  with Cons.IH [OF precs] obtain sg' a' rest'
    where loop: "totals_loop h rest (Fin sg n (- 2)) = (Inr (Fin sg' a' (- 2)), rest')"
      and v': "dval (Fin sg' a' (- 2)) = dval (Fin sg n (- 2)) + sum_list (map (spec_line_total h) rest)"
      and att: "list_all2 (line_attached h) rest rest'" by blast
  have "totals_loop h (it # rest) (Fin s0 a0 (- 2))
          = (Inr (Fin sg' a' (- 2)), set_line_total it (Fin s a (- 2)) # rest')"
    by (simp add: line add loop del: dec_add.simps)
  moreover have "dval (Fin sg' a' (- 2))
          = dval (Fin s0 a0 (- 2)) + sum_list (map (spec_line_total h) (it # rest))"
    using v' val sp by simp
  moreover have "list_all2 (line_attached h) (it # rest) (set_line_total it (Fin s a (- 2)) # rest')"
    using att line_attached_set [OF it sp] by simp
  ultimately show ?case by blast
qed

lemma on_ok_Inr: "on_ok m f = Inr y \<longleftrightarrow> (\<exists>x. m = Inr x \<and> f x = Inr y)"
  by (cases m) (simp_all add: on_ok_def)

lemma on_ok_simps [simp]: "on_ok (Inr x) f = f x" "on_ok (Inl e) f = Inl e"
  by (simp_all add: on_ok_def)

lemma rescale_same: "rescale r c q q = c"
  by (simp add: rescale_def)

lemma quantize_amount: "a < 10 ^ 28 \<Longrightarrow> quantize (Fin s a (- 2)) cent ROUND_HALF_UP = Inr (Fin s a (- 2))"
  by (simp add: quantize_cent rescale_same)

lemma round_half_up_amount: "round_half_up (dval (Fin s a (- 2))) = dval (Fin s a (- 2))"
  by (simp add: round_half_up_dval rescale_same)

lemma sum_list_abs_le: "\<bar>sum_list (map f xs)\<bar> \<le> sum_list (map (\<lambda>x. \<bar>f x :: rat\<bar>) xs)"
  by (induction xs) (auto intro: order_trans [OF abs_triangle_ineq])

lemma coefficient_cents: "coefficient (cents (dval (Fin s a (- 2)))) = a"
proof -
  have "dval (Fin s a (- 2)) * 100 = of_int (signed s a)" by (simp add: dval_cents)
  then have "\<lfloor>dval (Fin s a (- 2)) * 100\<rfloor> = signed s a" by simp
  then show ?thesis by (simp add: coefficient_def cents_def signed_def)
qed

lemma exponent_cents: "exponent (cents x) = - 2"
  by (simp add: exponent_def cents_def)

lemma coefficient_Fin: "coefficient (Fin s c e) = c"
  by (simp add: coefficient_def)

lemma exponent_Fin: "exponent (Fin s c e) = e"
  by (simp add: exponent_def)

section \<open>The totals\<close>

lemma round_half_up_cents: "round_half_up (of_int k / 100) = of_int k / 100"
proof -
  have "of_int k / 100 = dval (Fin (k < 0) (nat \<bar>k\<bar>) (- 2))"
    by (simp add: dval_cents signed_def)
  then show ?thesis by (simp only: round_half_up_amount)
qed

lemma demo_lines: "map (spec_line_total demo_host) demo_items = [125000, 800, 450]"
  by (simp add: demo_items_def spec_eval host_defs parse_defs str_defs)

lemma demo_rate: "to_decimal demo_host rate_00825 = Inr (Fin False 825 (- 4))"
  by (simp add: rate_00825_def host_defs parse_defs)

lemma round_half_up_times:
  "round_half_up (of_int k / 100 * dval (Fin t c e))
     = dval (Fin ((k < 0) \<noteq> t) (rescale ROUND_HALF_UP (nat \<bar>k\<bar> * c) (- 2 + e) (- 2)) (- 2))"
proof -
  have "of_int k / 100 = dval (Fin (k < 0) (nat \<bar>k\<bar>) (- 2))"
    by (simp add: dval_cents signed_def)
  then show ?thesis by (simp only: dval_mult round_half_up_dval)
qed

lemma demo_subtotal: "spec_subtotal demo_host demo_items = 126250"
proof -
  have "spec_subtotal demo_host demo_items = round_half_up (of_int 12625000 / 100)"
    by (simp add: spec_subtotal_def demo_lines)
  also have "\<dots> = of_int 12625000 / 100" by (rule round_half_up_cents)
  finally show ?thesis by simp
qed

lemma demo_tax: "spec_tax demo_host demo_items rate_00825 = 1041563 / 100"
proof -
  have "spec_tax demo_host demo_items rate_00825
          = round_half_up (of_int 12625000 / 100 * dval (Fin False 825 (- 4)))"
    by (simp add: spec_tax_def demo_subtotal number_of_def demo_rate)
  also have "\<dots> = dval (Fin ((12625000 < (0::int)) \<noteq> False)
      (rescale ROUND_HALF_UP (nat \<bar>12625000\<bar> * 825) (- 2 + - 4) (- 2)) (- 2))"
    by (rule round_half_up_times)
  also have "\<dots> = 1041563 / 100"
    by (simp add: round_defs dval_cents signed_def)
  finally show ?thesis .
qed

lemma demo_total: "spec_total demo_host demo_items rate_00825 = 13666563 / 100"
proof -
  have "spec_total demo_host demo_items rate_00825 = round_half_up (of_int 13666563 / 100)"
    by (simp add: spec_total_def demo_subtotal demo_tax)
  also have "\<dots> = of_int 13666563 / 100" by (rule round_half_up_cents)
  finally show ?thesis by simp
qed

lemma demo_within: "within_precision demo_host demo_items rate_00825"
proof -
  have "list_all (item_in_precision demo_host) demo_items"
    by (simp add: demo_items_def item_in_precision_def dict_get_def host_defs parse_defs str_defs
        exact_product_def is_finite_def coefficient_Fin exponent_Fin ctx_defs)
  moreover have "sum_list (map (\<lambda>it. \<bar>spec_line_total demo_host it\<bar>) demo_items) < 10 ^ 26"
    by (simp add: demo_items_def spec_eval host_defs parse_defs str_defs)
  moreover have "exact_product (cents (spec_subtotal demo_host demo_items)) (Fin False 825 (- 4))"
    by (simp add: demo_subtotal cents_def exact_product_def is_finite_def coefficient_Fin
        exponent_Fin ctx_defs)
  moreover have "\<bar>spec_tax demo_host demo_items rate_00825\<bar> < 10 ^ 26"
    by (simp add: demo_tax)
  moreover have "\<bar>spec_subtotal demo_host demo_items + spec_tax demo_host demo_items rate_00825\<bar>
      < 10 ^ 26"
    by (simp add: demo_tax demo_subtotal)
  ultimately show ?thesis
    by (simp add: within_precision_def demo_rate)
qed

lemma huge_run:
  "compute_totals demo_host [huge_item] (PInt 0)
     = (Inr (Fin False 1125000000000000000000000112 (- 2), Fin False 0 (- 2),
             Fin False 1125000000000000000000000112 (- 2)),
        [set_line_total huge_item (Fin False 1125000000000000000000000112 (- 2))])"
  by (simp add: huge_item_def run_defs host_defs parse_defs str_defs round_defs ctx_defs)

lemma huge_spec: "spec_line_total demo_host huge_item = 1125000000000000000000000113 / 100"
  by (simp add: huge_item_def spec_eval host_defs parse_defs str_defs)

lemma demo_run:
  "fst (compute_totals demo_host demo_items rate_00825)
     = Inr (Fin False 12625000 (- 2), Fin False 1041563 (- 2), Fin False 13666563 (- 2))"
  by (simp add: demo_items_def rate_00825_def run_defs host_defs parse_defs str_defs round_defs
      ctx_defs)

text \<open>
  C1, as the specification states it: for every list of items the line total is the exact
  product rounded half-up. An item of quantity \<open>10 ^ 25 + 1\<close> at 1.125 has the exact
  product 11250000000000000000000001.125; the context first rounds it to 28 digits,
  half-even, so the program attaches \<open>\<dots>01.12\<close> where the specification gives \<open>\<dots>01.13\<close>.
\<close>

theorem line_total_beyond_precision:
  "compute_totals demo_host [huge_item] (PInt 0)
     = (Inr (Fin False 1125000000000000000000000112 (- 2), Fin False 0 (- 2),
             Fin False 1125000000000000000000000112 (- 2)),
        [set_line_total huge_item (Fin False 1125000000000000000000000112 (- 2))])
   \<and> dval (Fin False 1125000000000000000000000112 (- 2)) = 1125000000000000000000000112 / 100
   \<and> spec_line_total demo_host huge_item = 1125000000000000000000000113 / 100"
  using huge_run huge_spec by (simp add: dval_cents signed_def)

text \<open>
  C1, amended: when the arithmetic stays within the working precision of the decimal
  context, \<^verbatim>\<open>compute_totals\<close> returns, every item carries the line total of the
  specification (with a missing \<^verbatim>\<open>qty\<close> or \<^verbatim>\<open>unit_price\<close> counted as zero), and subtotal, tax
  and total are the amounts of the specification: the rounded sum of the rounded line
  totals, the rounded product of subtotal and rate, the rounded sum of subtotal and tax.
\<close>

theorem compute_totals_spec:
  assumes "within_precision h items tax_rate"
  shows "case compute_totals h items tax_rate of
           (Inr (subtotal, tax, grand_total), items') \<Rightarrow>
             is_amount subtotal (spec_subtotal h items)
             \<and> is_amount tax (spec_tax h items tax_rate)
             \<and> is_amount grand_total (spec_total h items tax_rate)
             \<and> list_all2 (line_attached h) items items'
         | (Inl e, items') \<Rightarrow> False"
proof -
  let ?lines = "sum_list (map (spec_line_total h) items)"
  from assms have items: "list_all (item_in_precision h) items"
    and mag: "sum_list (map (\<lambda>it. \<bar>spec_line_total h it\<bar>) items) < 10 ^ 26"
    and tmag: "\<bar>spec_tax h items tax_rate\<bar> < 10 ^ 26"
    and smag: "\<bar>spec_subtotal h items + spec_tax h items tax_rate\<bar> < 10 ^ 26"
    by (simp_all add: within_precision_def)
  from assms obtain r where r: "to_decimal h tax_rate = Inr r"
    and ex: "exact_product (cents (spec_subtotal h items)) r"
    by (auto simp: within_precision_def split: sum.splits)
  from ex obtain t c' e' where rf: "r = Fin t c' e'"
    by (cases r) (simp_all add: exact_product_def is_finite_def)
  \<comment> \<open>the loop\<close>
  have "\<bar>dval (Fin False 0 (- 2))\<bar> + sum_list (map (\<lambda>it. \<bar>spec_line_total h it\<bar>) items) < 10 ^ 26"
    using mag by simp
  from totals_loop_spec [OF items this] obtain sg a items'
    where loop: "totals_loop h items (Fin False 0 (- 2)) = (Inr (Fin sg a (- 2)), items')"
      and v: "dval (Fin sg a (- 2)) = ?lines"
      and att: "list_all2 (line_attached h) items items'"
    by auto
  have "\<bar>dval (Fin sg a (- 2))\<bar> < 10 ^ 26"
    unfolding v using sum_list_abs_le [of "spec_line_total h" items] mag by linarith
  then have a: "a < 10 ^ 28" by (simp only: cents_bound)
  have sub: "spec_subtotal h items = dval (Fin sg a (- 2))"
    by (simp add: spec_subtotal_def v [symmetric] round_half_up_amount)
  \<comment> \<open>the tax\<close>
  have cc: "a * c' < 10 ^ 28" and ee: "a * c' = 0 \<or> Etiny \<le> - 2 + e'"
    using ex by (simp_all add: exact_product_def sub coefficient_cents exponent_cents rf
        coefficient_Fin exponent_Fin)
  define b where "b = rescale ROUND_HALF_UP (a * c') (- 2 + e') (- 2)"
  have tax: "spec_tax h items tax_rate = dval (Fin (sg \<noteq> t) b (- 2))"
    by (simp add: spec_tax_def number_of_def r rf sub dval_mult round_half_up_dval b_def
        del: to_decimal.simps)
  have b: "b < 10 ^ 28" using tmag unfolding tax by (simp only: cents_bound)
  have "on_ok (dec_mul (Fin sg a (- 2)) (Fin t c' e')) (\<lambda>p. quantize p cent ROUND_HALF_UP)
          = Inr (Fin (sg \<noteq> t) b (- 2))"
    unfolding b_def using cc ee b [unfolded b_def] by (rule line_exact)
  then obtain p where mul: "dec_mul (Fin sg a (- 2)) (Fin t c' e') = Inr p"
    and qt: "quantize p cent ROUND_HALF_UP = Inr (Fin (sg \<noteq> t) b (- 2))"
    by (auto simp: on_ok_Inr)
  \<comment> \<open>the total\<close>
  have "\<bar>dval (Fin sg a (- 2)) + dval (Fin (sg \<noteq> t) b (- 2))\<bar> < 10 ^ 26"
    using smag by (simp only: sub tax)
  with add_amounts obtain sg2 n
    where add: "dec_add (Fin sg a (- 2)) (Fin (sg \<noteq> t) b (- 2)) = Inr (Fin sg2 n (- 2))"
      and n: "n < 10 ^ 28"
      and tv: "dval (Fin sg2 n (- 2)) = dval (Fin sg a (- 2)) + dval (Fin (sg \<noteq> t) b (- 2))"
    by blast
  have total: "spec_total h items tax_rate = dval (Fin sg2 n (- 2))"
    unfolding spec_total_def sub tax tv [symmetric] by (rule round_half_up_amount)
  have q1: "quantize (Fin sg a (- 2)) cent ROUND_HALF_UP = Inr (Fin sg a (- 2))"
    using a by (rule quantize_amount)
  have q3: "quantize (Fin sg2 n (- 2)) cent ROUND_HALF_UP = Inr (Fin sg2 n (- 2))"
    using n by (rule quantize_amount)
  have "compute_totals h items tax_rate
          = (Inr (Fin sg a (- 2), Fin (sg \<noteq> t) b (- 2), Fin sg2 n (- 2)), items')"
    by (simp only: compute_totals_def zero_amount_def loop prod.case on_ok_simps q1
        r rf mul qt add q3)
  then show ?thesis
    using sub tax total att by (simp add: is_amount_def)
qed

text \<open>
  At the demonstration invoice with a rate of 0.0825: the subtotal is 126250.00, the tax
  10415.625 rounds up to 10415.63, the total is 136665.63.
\<close>

theorem compute_totals_spec_witness:
  "within_precision demo_host demo_items rate_00825
   \<and> (case compute_totals demo_host demo_items rate_00825 of
         (Inr (subtotal, tax, grand_total), items') \<Rightarrow>
           is_amount subtotal 126250
           \<and> is_amount tax (1041563 / 100)
           \<and> is_amount grand_total (13666563 / 100)
           \<and> list_all2 (line_attached demo_host) demo_items items'
       | (Inl e, items') \<Rightarrow> False)"
  using demo_within
    compute_totals_spec [OF demo_within, unfolded demo_subtotal demo_tax demo_total]
  by simp

section \<open>Total, subtotal and tax\<close>

lemma quantize_finite:
  assumes "quantize x cent ROUND_HALF_UP = Inr (Fin s a e)"
  shows "\<exists>c e0. x = Fin s c e0 \<and> e = - 2 \<and> a = rescale ROUND_HALF_UP c e0 (- 2) \<and> a < 10 ^ 28"
proof (cases x)
  case (Fin s' c e0)
  then show ?thesis using assms by (auto simp: quantize_cent split: if_splits)
qed (use assms in \<open>simp_all add: cent_def\<close>)

lemma dec_add_finite:
  "dec_add x y = Inr (Fin s a e) \<Longrightarrow> is_finite x \<and> is_finite y"
  by (cases x; cases y) (simp_all add: is_finite_def split: if_splits)

lemma dec_mul_finite:
  "dec_mul x y = Inr (Fin s a e) \<Longrightarrow> is_finite x \<and> is_finite y"
  by (cases x; cases y) (simp_all add: is_finite_def split: if_splits)

lemma dec_fix_fits:
  assumes "c \<noteq> 0" "c < 10 ^ 28" "Etiny \<le> e"
  shows "dec_fix (Fin s c e) = Inr (Fin s c e) \<or> dec_fix (Fin s c e) = Inl Overflow"
proof -
  have nd: "ndigits c \<le> 28" using assms(2) by (simp add: ndigits_le)
  have 2: "\<not> e < max (int (ndigits c) + e - int prec) Etiny"
    using nd assms(3) by (simp add: prec_def)
  show ?thesis
    using assms(1) 2 by (simp add: Let_def dec_fix.simps)
qed

lemma line_exact_result:
  assumes "c * c' < 10 ^ 28" and "c * c' = 0 \<or> Etiny \<le> e + e'"
    and "on_ok (dec_mul (Fin s c e) (Fin t c' e')) (\<lambda>p. quantize p cent ROUND_HALF_UP) = Inr y"
  shows "y = Fin (s \<noteq> t) (rescale ROUND_HALF_UP (c * c') (e + e') (- 2)) (- 2)"
proof (cases "c * c' = 0")
  case True
  obtain e'' where "dec_fix (Fin (s \<noteq> t) 0 (e + e')) = Inr (Fin (s \<noteq> t) 0 e'')"
    using dec_fix_zero by blast
  then have "dec_mul (Fin s c e) (Fin t c' e') = Inr (Fin (s \<noteq> t) 0 e'')"
    by (simp only: dec_mul.simps True)
  then show ?thesis
    using assms(3) unfolding True by (simp add: quantize_cent)
next
  case False
  then have e: "Etiny \<le> e + e'" using assms(2) by simp
  have m: "dec_mul (Fin s c e) (Fin t c' e') = dec_fix (Fin (s \<noteq> t) (c * c') (e + e'))"
    by (simp only: dec_mul.simps)
  have "dec_fix (Fin (s \<noteq> t) (c * c') (e + e')) = Inr (Fin (s \<noteq> t) (c * c') (e + e'))"
    using dec_fix_fits [OF False assms(1) e, of "s \<noteq> t"] assms(3) unfolding m by auto
  then show ?thesis
    using assms(3) unfolding m by (simp add: quantize_cent split: if_splits)
qed

lemma dec_fix_rounds:
  assumes "c \<noteq> 0" and "e < max (int (ndigits c) + e - int prec) Etiny"
    and "dec_fix (Fin s c e) = Inr y"
  shows "y = (let exp_min = max (int (ndigits c) + e - int prec) Etiny;
                  c1 = round_digits ROUND_HALF_EVEN c (nat (exp_min - e))
              in if prec < ndigits c1 then Fin s (c1 div 10) (exp_min + 1) else Fin s c1 exp_min)"
  using assms by (simp add: dec_fix.simps Let_def split: if_splits)

lemma dec_fix_large:
  assumes "10 ^ 28 \<le> n" and "dec_fix (Fin sg n (- 2)) = Inr (Fin s' c e)"
  shows "- 1 \<le> e \<and> 10 ^ 27 \<le> c"
proof -
  define nd where "nd = ndigits n"
  have n0: "n \<noteq> 0" using assms(1) by auto
  have "\<not> nd \<le> 28" using assms(1) by (simp add: nd_def ndigits_le)
  then have nd: "29 \<le> nd" by simp
  define d where "d = nd - 28"
  have em: "max (int (ndigits n) + - 2 - int prec) Etiny = int d - 2"
    using nd by (simp add: prec_def Etiny_def Emin_def d_def nd_def)
  define c1 where "c1 = round_digits ROUND_HALF_EVEN n d"
  have "10 ^ (nd - 1) div 10 ^ d \<le> n div 10 ^ d"
    using ndigits_lower [OF n0] by (intro div_le_mono) (simp add: nd_def)
  moreover have "(10::nat) ^ (nd - 1) div 10 ^ d = 10 ^ 27"
  proof -
    have "nd - 1 = 27 + d" using nd by (simp add: d_def)
    then show ?thesis by (simp add: power_add)
  qed
  ultimately have "10 ^ 27 \<le> n div 10 ^ d" by simp
  then have c1: "10 ^ 27 \<le> c1"
    using round_digits_ge [of n d ROUND_HALF_EVEN] by (simp add: c1_def)
  have carry: "prec < ndigits c1 \<Longrightarrow> 10 ^ 27 \<le> c1 div 10"
  proof -
    assume "prec < ndigits c1"
    then have "\<not> ndigits c1 \<le> 28" by (simp add: prec_def)
    then have "10 ^ 28 \<le> c1" by (simp add: ndigits_le)
    then have "10 ^ 28 div 10 \<le> c1 div 10" by (rule div_le_mono)
    then show ?thesis by simp
  qed
  have lt: "- 2 < max (int (ndigits n) + - 2 - int prec) Etiny"
    unfolding em using nd by (simp add: d_def)
  have nat_d: "nat (int d - 2 - - 2) = d" by simp
  have "Fin s' c e = (if prec < ndigits c1 then Fin sg (c1 div 10) (int d - 2 + 1)
                      else Fin sg c1 (int d - 2))"
    using dec_fix_rounds [OF n0 lt assms(2)] unfolding em Let_def nat_d c1_def [symmetric] .
  then show ?thesis
    using c1 carry nd by (auto simp: d_def split: if_splits)
qed

lemma add_amounts_result:
  assumes "a < 10 ^ 28" "b < 10 ^ 28"
    and "dec_add (Fin s a (- 2)) (Fin t b (- 2)) = Inr x"
    and "quantize x cent ROUND_HALF_UP = Inr (Fin sg n e)"
  shows "x = Fin sg n e \<and> dval (Fin sg n e) = dval (Fin s a (- 2)) + dval (Fin t b (- 2))"
proof -
  define r where "r = signed s a + signed t b"
  from quantize_finite [OF assms(4)] obtain c e0 where x: "x = Fin sg c e0" and e: "e = - 2"
    and n: "n = rescale ROUND_HALF_UP c e0 (- 2)" and nb: "n < 10 ^ 28" by blast
  show ?thesis
  proof (cases "\<bar>r\<bar> < 10 ^ 28")
    case True
    then have "\<bar>dval (Fin s a (- 2)) + dval (Fin t b (- 2))\<bar> < 10 ^ 26"
      by (simp add: dval_cents r_def add_divide_distrib [symmetric] field_simps
          flip: of_int_add)
    from add_amounts [OF this] obtain sg' n' where
      "dec_add (Fin s a (- 2)) (Fin t b (- 2)) = Inr (Fin sg' n' (- 2))" "n' < 10 ^ 28"
      "dval (Fin sg' n' (- 2)) = dval (Fin s a (- 2)) + dval (Fin t b (- 2))" by blast
    then show ?thesis
      using assms(3,4) by (auto simp: quantize_amount)
  next
    case False
    then have big: "10 ^ 28 \<le> nat \<bar>r\<bar>" by (simp add: le_nat_iff)
    have "a \<noteq> 0 \<or> b \<noteq> 0"
    proof (rule ccontr)
      assume "\<not> (a \<noteq> 0 \<or> b \<noteq> 0)"
      then have "r = 0" by (simp add: r_def signed_def)
      then show False using False by simp
    qed
    then have "dec_fix (Fin (r < 0) (nat \<bar>r\<bar>) (- 2)) = Inr (Fin sg c e0)"
      using assms(3) by (auto simp: dec_add_cents r_def x simp del: dec_add.simps)
    from dec_fix_large [OF big this] have "- 1 \<le> e0" "10 ^ 27 \<le> c" by simp_all
    then have "10 ^ 27 * 10 ^ 1 \<le> c * 10 ^ nat (e0 + 2)"
      by (intro mult_le_mono power_increasing) auto
    then have "10 ^ 28 \<le> n"
      using \<open>- 1 \<le> e0\<close> \<open>10 ^ 27 \<le> c\<close> by (simp add: n rescale_def)
    then show ?thesis using nb by simp
  qed
qed


lemma is_finite_Fin: "is_finite d \<longleftrightarrow> (\<exists>s c e. d = Fin s c e)"
  by (cases d) (simp_all add: is_finite_def)

lemma precise_run:
  "compute_totals demo_host [precise_item] rate_0155
     = (Inr (Fin False 1000000000000000000000000003 (- 2),
             Fin False 155000000000000000000000001 (- 2),
             Fin False 1155000000000000000000000004 (- 2)),
        [set_line_total precise_item (Fin False 1000000000000000000000000003 (- 2))])"
  by (simp add: precise_item_def rate_0155_def run_defs host_defs parse_defs str_defs round_defs
      ctx_defs)

lemma precise_rate: "to_decimal demo_host rate_0155 = Inr (Fin False 155 (- 3))"
  by (simp add: rate_0155_def host_defs parse_defs)

lemma precise_tax:
  "round_half_up (dval (Fin False 1000000000000000000000000003 (- 2)) * dval (Fin False 155 (- 3)))
     = 155000000000000000000000000 / 100"
  by (simp only: dval_mult round_half_up_dval) (simp add: round_defs dval_cents signed_def)

text \<open>
  C5, as the specification states it: the tax is the exact product of subtotal and rate
  rounded half-up. With the subtotal 10000000000000000000000000.03 and the rate 0.155 the
  exact product is 1550000000000000000000000.00465; the context rounds it to 28 digits,
  \<open>\<dots>.005\<close>, and the half-up rounding of that gives \<open>\<dots>.01\<close> where the specification gives
  \<open>\<dots>.00\<close>.
\<close>

theorem tax_beyond_precision:
  "compute_totals demo_host [precise_item] rate_0155
     = (Inr (Fin False 1000000000000000000000000003 (- 2),
             Fin False 155000000000000000000000001 (- 2),
             Fin False 1155000000000000000000000004 (- 2)),
        [set_line_total precise_item (Fin False 1000000000000000000000000003 (- 2))])
   \<and> to_decimal demo_host rate_0155 = Inr (Fin False 155 (- 3))
   \<and> dval (Fin False 155000000000000000000000001 (- 2)) = 155000000000000000000000001 / 100
   \<and> round_half_up (dval (Fin False 1000000000000000000000000003 (- 2)) * dval (Fin False 155 (- 3)))
       = 155000000000000000000000000 / 100"
  using precise_run precise_rate precise_tax by (simp add: dval_cents signed_def)

text \<open>
  C5, amended: whenever \<^verbatim>\<open>compute_totals\<close> returns a finite total, the total is the sum of
  subtotal and tax exactly (the last \<^verbatim>\<open>quantize\<close> changes nothing), the rate has been read
  as a finite decimal, and the tax is the product of subtotal and rate rounded half-up
  provided that product is exact in the context.
\<close>

theorem totals_add_up:
  assumes "compute_totals h items tax_rate = (Inr (subtotal, tax, grand_total), items')"
    and "is_finite grand_total"
  shows "dec_add subtotal tax = Inr grand_total
       \<and> dval grand_total = dval subtotal + dval tax
       \<and> (\<exists>rate. to_decimal h tax_rate = Inr rate \<and> is_finite rate
             \<and> (exact_product subtotal rate
                  \<longrightarrow> dval tax = round_half_up (dval subtotal * dval rate)))"
proof -
  from assms(1) obtain subtotal0 rate t x
    where q1: "quantize subtotal0 cent ROUND_HALF_UP = Inr subtotal"
      and rate: "to_decimal h tax_rate = Inr rate"
      and mul: "dec_mul subtotal rate = Inr t"
      and q2: "quantize t cent ROUND_HALF_UP = Inr tax"
      and add: "dec_add subtotal tax = Inr x"
      and q3: "quantize x cent ROUND_HALF_UP = Inr grand_total"
    by (auto simp: compute_totals_def on_ok_Inr split: prod.splits)
  from assms(2) obtain sg n e where g: "grand_total = Fin sg n e"
    by (auto simp: is_finite_Fin)
  from quantize_finite [OF q3 [unfolded g]] obtain c e0 where x: "x = Fin sg c e0" by blast
  from dec_add_finite [OF add [unfolded x]] obtain s a e1 tt b e2
    where sub: "subtotal = Fin s a e1" and tax: "tax = Fin tt b e2"
    by (auto simp: is_finite_Fin)
  from quantize_finite [OF q1 [unfolded sub]] have e1: "e1 = - 2" and a: "a < 10 ^ 28" by auto
  from quantize_finite [OF q2 [unfolded tax]] obtain c2 e3 where t: "t = Fin tt c2 e3"
    and e2: "e2 = - 2" and b: "b < 10 ^ 28" by auto
  from dec_mul_finite [OF mul [unfolded t]] obtain rs rc re where r: "rate = Fin rs rc re"
    by (auto simp: is_finite_Fin)
  have sum: "x = Fin sg n e \<and> dval (Fin sg n e) = dval (Fin s a (- 2)) + dval (Fin tt b (- 2))"
    using add q3 unfolding sub tax e1 e2 g by (rule add_amounts_result [OF a b])
  have exact: "dval tax = round_half_up (dval subtotal * dval rate)" if "exact_product subtotal rate"
  proof -
    from that have cc: "a * rc < 10 ^ 28" and ee: "a * rc = 0 \<or> Etiny \<le> - 2 + re"
      by (simp_all add: exact_product_def sub r e1 coefficient_Fin exponent_Fin)
    have "on_ok (dec_mul (Fin s a (- 2)) (Fin rs rc re)) (\<lambda>p. quantize p cent ROUND_HALF_UP)
            = Inr tax"
      using mul q2 by (simp add: sub r e1 del: dec_mul.simps)
    from line_exact_result [OF cc ee this]
    show ?thesis by (simp add: sub r e1 dval_mult round_half_up_dval)
  qed
  show ?thesis
    using sum add rate exact by (auto simp: g sub tax e1 e2 r is_finite_def)
qed

theorem totals_add_up_witness:
  "fst (compute_totals demo_host demo_items rate_00825)
     = Inr (Fin False 12625000 (- 2), Fin False 1041563 (- 2), Fin False 13666563 (- 2))
   \<and> is_finite (Fin False 13666563 (- 2))
   \<and> dec_add (Fin False 12625000 (- 2)) (Fin False 1041563 (- 2)) = Inr (Fin False 13666563 (- 2))
   \<and> dval (Fin False 13666563 (- 2))
       = dval (Fin False 12625000 (- 2)) + dval (Fin False 1041563 (- 2))
   \<and> exact_product (Fin False 12625000 (- 2)) (Fin False 825 (- 4))
   \<and> dval (Fin False 1041563 (- 2))
       = round_half_up (dval (Fin False 12625000 (- 2)) * dval (Fin False 825 (- 4)))"
proof -
  have run: "compute_totals demo_host demo_items rate_00825
      = (Inr (Fin False 12625000 (- 2), Fin False 1041563 (- 2), Fin False 13666563 (- 2)),
         snd (compute_totals demo_host demo_items rate_00825))"
    using demo_run by (simp add: prod_eq_iff)
  have fin: "is_finite (Fin False 13666563 (- 2))" by (simp add: is_finite_def)
  have ex: "exact_product (Fin False 12625000 (- 2)) (Fin False 825 (- 4))"
    by (simp add: exact_product_def is_finite_def coefficient_Fin exponent_Fin ctx_defs)
  show ?thesis
    using demo_run fin ex demo_rate totals_add_up [OF run fin] by auto
qed

section \<open>What \<^verbatim>\<open>compute_totals\<close> leaves alone\<close>
















section \<open>Line totals in the items table\<close>












section \<open>Half-up rounding\<close>








section \<open>Values that are no numbers\<close>







lemma is_error_simps [simp]: "is_error (Inl e)" "\<not> is_error (Inr x)"
  by (simp_all add: is_error_def)







end
